theory Spec2Isabelle
  imports Complex_Main "HOL-Library.Multiset"
begin

section \<open>Conventions\<close>

text \<open>
  The sources under verification are the TypeScript pages of the portfolio front end
  (\<^verbatim>\<open>utils/format.ts\<close>, \<^verbatim>\<open>pages/AllocationPage.tsx\<close>,
  \<^verbatim>\<open>pages/TransactionsPage.tsx\<close>, \<^verbatim>\<open>pages/DashboardPage.tsx\<close>,
  \<^verbatim>\<open>pages/HoldingsPage.tsx\<close>) together with \<^verbatim>\<open>types.ts\<close>. The server the pages talk
  to is not among the sources; where a property needs what a request does, the handler is
  modelled from the specification and marked as such.

  \<^item> A JavaScript \<^verbatim>\<open>number\<close> that carries a quantity, price, amount or weight is a
    \<^typ>\<open>real\<close>: arithmetic is exact, and there is no NaN and no infinity. A decimal string
    of the API (\<^verbatim>\<open>target_weight: string\<close>) is the real it denotes, so
    \<^verbatim>\<open>Number(item.target_weight)\<close> is the field itself. The amount of a trade is the
    exception, being about its eighth decimal: there a number is the real that the
    double denotes, and the two operations that round to a double (the product, and the
    reading of a decimal string) are not computed but taken as parameters.
  \<^item> Database identifiers are natural numbers, time values are integers (milliseconds
    since the epoch); \<^verbatim>\<open>null\<close> and \<^verbatim>\<open>undefined\<close> are \<^const>\<open>None\<close>.
  \<^item> A string is a list of bytes; letters and white space are the ASCII ones.
  \<^item> A React page is a record of its state; an event handler takes the state of the server
    and of the page and returns both. Texts shown to the user are constructors of a
    datatype.
\<close>

section \<open>utils/format.ts\<close>

definition toNumber :: "real option \<Rightarrow> real option" where
  \<comment> \<open>\<^verbatim>\<open>null\<close>, \<^verbatim>\<open>undefined\<close> and \<^verbatim>\<open>""\<close> give \<^verbatim>\<open>null\<close>; a number of the model is always finite.\<close>
  "toNumber v = (case v of None \<Rightarrow> None | Some num \<Rightarrow> Some num)"

definition sumDecimals :: "real option list \<Rightarrow> real" where
  "sumDecimals values =
     foldl (\<lambda>acc current. acc + (case toNumber current of None \<Rightarrow> 0 | Some v \<Rightarrow> v)) 0 values"

definition isHundred :: "real \<Rightarrow> real \<Rightarrow> bool" where
  "isHundred v tolerance = (\<bar>v - 100\<bar> \<le> tolerance)"

definition DEFAULT_TOLERANCE :: real where
  \<comment> \<open>the default of the parameter \<^verbatim>\<open>tolerance = 0.0001\<close>\<close>
  "DEFAULT_TOLERANCE = 1 / 10000"

definition toFixedNumber :: "nat \<Rightarrow> real \<Rightarrow> real" where
  \<comment> \<open>\<^verbatim>\<open>Number(x.toFixed(digits))\<close>: the nearest multiple of \<open>10\<^sup>-\<^sup>d\<close>, a tie going to the
      larger magnitude; from \<open>10\<^sup>2\<^sup>1\<close> on \<^verbatim>\<open>toFixed\<close> prints the number itself.\<close>
  "toFixedNumber digits x =
     (if \<bar>x\<bar> \<ge> 10 ^ 21 then x
      else if x < 0 then - (of_int \<lfloor>(- x) * 10 ^ digits + 1 / 2\<rfloor> / 10 ^ digits)
      else of_int \<lfloor>x * 10 ^ digits + 1 / 2\<rfloor> / 10 ^ digits)"

datatype display = Dash | Decimal real | Percent real

definition formatPercentOrDash :: "real option \<Rightarrow> display" where
  \<comment> \<open>\<^verbatim>\<open>v === null ? "-" : formatPercent(v)\<close>; \<open>Percent v\<close> is the text of \<open>v\<close> with three
      decimals and a percent sign.\<close>
  "formatPercentOrDash v = (case v of None \<Rightarrow> Dash | Some r \<Rightarrow> Percent r)"

section \<open>types.ts\<close>

datatype tx_type = BUY | SELL | DIVIDEND | FEE | CASH_IN | CASH_OUT | INTERNAL_TRANSFER

datatype instrument_type = STOCK | FUND

record AllocationNode =
  node_id :: nat
  parent_id :: "nat option"
  node_name :: string
  target_weight :: real
  order_index :: nat

record Instrument =
  inst_id :: nat
  symbol :: string
  market :: string
  inst_type :: instrument_type
  inst_currency :: string
  inst_name :: string
  default_account_id :: "nat option"
  allocation_node_id :: "nat option"

record Transaction =
  tx_id :: nat
  tx_kind :: tx_type
  account_id :: nat
  instrument_id :: "nat option"
  quantity :: "real option"
  price :: "real option"
  amount :: real
  fee :: real
  tax :: real
  currency :: string
  executed_at :: int
  executed_tz :: string
  transfer_group_id :: "string option"
  tx_note :: "string option"

record DriftItem =
  drift_node_id :: nat
  drift_name :: string
  drift_target_weight :: real
  actual_weight :: real
  drift_pct :: real
  is_alerted :: bool

record ReturnCurvePoint =
  point_date :: string
  net_contribution :: real
  total_assets :: real
  total_return :: real
  total_return_rate :: "real option"

record YahooLookupQuote =
  lq_symbol :: string
  matched_symbol :: "string option"
  found :: bool
  provider_status :: string
  lq_name :: "string option"
  lq_price :: "real option"
  lq_currency :: "string option"
  lq_market :: "string option"
  quote_type :: "string option"

section \<open>Array.prototype.sort\<close>

text \<open>
  \<^verbatim>\<open>sort\<close> is stable and is given a comparator; \<open>le a b\<close> stands for
  \<^verbatim>\<open>compare(a, b) <= 0\<close>.
\<close>

fun insert_by :: "('a \<Rightarrow> 'a \<Rightarrow> bool) \<Rightarrow> 'a \<Rightarrow> 'a list \<Rightarrow> 'a list" where
  "insert_by le x [] = [x]"
| "insert_by le x (y # ys) = (if le x y then x # y # ys else y # insert_by le x ys)"

definition sort_by :: "('a \<Rightarrow> 'a \<Rightarrow> bool) \<Rightarrow> 'a list \<Rightarrow> 'a list" where
  "sort_by le xs = foldr (insert_by le) xs []"

definition node_le :: "(string \<Rightarrow> string \<Rightarrow> int) \<Rightarrow> AllocationNode \<Rightarrow> AllocationNode \<Rightarrow> bool" where
  \<comment> \<open>\<^verbatim>\<open>a.name.localeCompare(b.name, "zh-Hans-CN", ...) || a.id - b.id\<close>; the collation is
      the runtime's and is a parameter.\<close>
  "node_le collate a b =
     ((let c = collate (node_name a) (node_name b)
       in if c \<noteq> 0 then c else int (node_id a) - int (node_id b)) \<le> 0)"

section \<open>The server, from the specification\<close>

text \<open>
  The request handlers are not among the sources. Each definition of this section is
  written from the sentence of the specification it quotes.
\<close>

datatype api_error = WeightSumRejected | NodeHasChildren | UnknownId

definition batch_update_weights ::
  "AllocationNode list \<Rightarrow> nat option \<Rightarrow> (nat \<times> real) list \<Rightarrow> api_error + AllocationNode list" where
  \<comment> \<open>Modelled from the spec: the handler of \<^verbatim>\<open>PATCH /allocation/nodes/weights/batch\<close> is
      missing. Section 4.3: given a parent id and the full set of its children with
      proposed weights, reject the entire batch if the sum deviates from 100 by more
      than the tolerance; otherwise apply all weights atomically.\<close>
  "batch_update_weights ns parentId items =
     (if \<not> isHundred (sum_list (map snd items)) DEFAULT_TOLERANCE then Inl WeightSumRejected
      else Inr (map (\<lambda>n. if parent_id n = parentId
                          then (case map_of items (node_id n) of
                                  Some w \<Rightarrow> n\<lparr>target_weight := w\<rparr>
                                | None \<Rightarrow> n)
                          else n) ns))"

definition patch_instrument_allocation ::
  "AllocationNode list \<Rightarrow> Instrument list \<Rightarrow> nat \<Rightarrow> nat \<Rightarrow> api_error + Instrument list" where
  \<comment> \<open>Modelled from the spec: the handler of \<^verbatim>\<open>PATCH /instruments/{id}\<close> with an
      \<^verbatim>\<open>allocation_node_id\<close> is missing. Section 4.3: binding to a node currently holding
      children is rejected, only true leaves accept bindings; rebinding simply overwrites
      the previous binding. Section 7: an unknown instrument or node id is a referential
      error.\<close>
  "patch_instrument_allocation ns instruments iid nid =
     (if \<not> list_ex (\<lambda>n. node_id n = nid) ns then Inl UnknownId
      else if list_ex (\<lambda>n. parent_id n = Some nid) ns then Inl NodeHasChildren
      else if \<not> list_ex (\<lambda>i. inst_id i = iid) instruments then Inl UnknownId
      else Inr (map (\<lambda>i. if inst_id i = iid then i\<lparr>allocation_node_id := Some nid\<rparr> else i)
                  instruments))"

definition ledger_delete :: "Transaction list \<Rightarrow> nat \<Rightarrow> api_error + (Transaction list \<times> nat)" where
  \<comment> \<open>Modelled from the spec: the handler of \<^verbatim>\<open>DELETE /transactions/{id}\<close> is missing; the
      page declares its answer as \<^verbatim>\<open>{ deleted: boolean; deleted_count: number }\<close>.
      Section 4.1: if the transaction belongs to a transfer group, deletes both legs
      atomically and reports the count deleted; otherwise deletes the single row.
      Deletion never rewrites other transactions.\<close>
  "ledger_delete ledger i =
     (case find (\<lambda>t. tx_id t = i) ledger of
        None \<Rightarrow> Inl UnknownId
      | Some t \<Rightarrow>
          (case transfer_group_id t of
             Some g \<Rightarrow>
               Inr (filter (\<lambda>u. transfer_group_id u \<noteq> Some g) ledger,
                    length (filter (\<lambda>u. transfer_group_id u = Some g) ledger))
           | None \<Rightarrow>
               Inr (filter (\<lambda>u. tx_id u \<noteq> i) ledger,
                    length (filter (\<lambda>u. tx_id u = i) ledger))))"

definition returns_point :: "string \<Rightarrow> real \<Rightarrow> real \<Rightarrow> ReturnCurvePoint" where
  \<comment> \<open>Modelled from the spec: the handler of \<^verbatim>\<open>GET /dashboard/returns-curve\<close> is missing.
      Section 4.4: total_return = total_assets - net_contribution; total_return_rate =
      total_return / net_contribution when net_contribution > 0, else null. The
      arguments are the day, its net contribution and its total assets.\<close>
  "returns_point day nc ta =
     \<lparr>point_date = day, net_contribution = nc, total_assets = ta, total_return = ta - nc,
      total_return_rate = (if nc > 0 then Some ((ta - nc) / nc) else None)\<rparr>"

definition drift_item :: "real \<Rightarrow> nat \<Rightarrow> string \<Rightarrow> real \<Rightarrow> real \<Rightarrow> DriftItem" where
  \<comment> \<open>Modelled from the spec: the handler of \<^verbatim>\<open>GET /rebalance/drift\<close> is missing. Section
      4.4: drift_pct = actual - target_weight_global; is_alerted = |drift_pct| >=
      configured threshold. The first argument is the threshold.\<close>
  "drift_item threshold i nm target actual =
     \<lparr>drift_node_id = i, drift_name = nm, drift_target_weight = target, actual_weight = actual,
      drift_pct = actual - target, is_alerted = (\<bar>actual - target\<bar> \<ge> threshold)\<rparr>"

definition cash_delta :: "Transaction \<Rightarrow> real" where
  \<comment> \<open>Modelled from the spec: the cash aggregation is missing. Section 4.2: cash balance
      per account is the running sum of all CASH_IN / DIVIDEND / SELL-proceeds minus
      CASH_OUT / BUY-cost / FEE / TAX. The two rows of a transfer carry no direction in
      the row type of the client, and are left out of the sum.\<close>
  "cash_delta t =
     (case tx_kind t of
        CASH_IN \<Rightarrow> amount t - fee t - tax t
      | DIVIDEND \<Rightarrow> amount t - fee t - tax t
      | SELL \<Rightarrow> amount t - fee t - tax t
      | CASH_OUT \<Rightarrow> - amount t - fee t - tax t
      | BUY \<Rightarrow> - amount t - fee t - tax t
      | FEE \<Rightarrow> - amount t - fee t - tax t
      | INTERNAL_TRANSFER \<Rightarrow> 0)"

definition cash_balance :: "nat \<Rightarrow> Transaction list \<Rightarrow> real" where
  \<comment> \<open>Modelled from the spec (section 4.2): the running sum over the rows of the account.\<close>
  "cash_balance acct ledger =
     foldl (\<lambda>acc t. acc + cash_delta t) 0 (filter (\<lambda>t. account_id t = acct) ledger)"

definition holding_step :: "real \<times> real \<Rightarrow> Transaction \<Rightarrow> real \<times> real" where
  \<comment> \<open>Modelled from the spec: the holdings aggregation is missing. Section 4.2: on BUY,
      new_avg_cost = (old_qty * old_avg_cost + qty * price) / (old_qty + qty); on SELL,
      quantity decreases but average cost is unchanged; the other types affect cash
      only. The state is (quantity, average cost).\<close>
  "holding_step s t =
     (let old_qty = fst s; old_avg_cost = snd s;
          qty = (case quantity t of None \<Rightarrow> 0 | Some q \<Rightarrow> q);
          prc = (case price t of None \<Rightarrow> 0 | Some p \<Rightarrow> p)
      in case tx_kind t of
           BUY \<Rightarrow> (old_qty + qty, (old_qty * old_avg_cost + qty * prc) / (old_qty + qty))
         | SELL \<Rightarrow> (old_qty - qty, old_avg_cost)
         | _ \<Rightarrow> s)"

definition holding :: "nat \<Rightarrow> nat \<Rightarrow> Transaction list \<Rightarrow> real \<times> real" where
  \<comment> \<open>Modelled from the spec (section 4.2): the fold of the history of one account and
      instrument.\<close>
  "holding acct inst ledger =
     foldl holding_step (0, 0)
       (filter (\<lambda>t. account_id t = acct \<and> instrument_id t = Some inst) ledger)"

section \<open>The Date object\<close>

text \<open>
  Time values and the functions on them follow ECMA-262 (Date objects): a time value is
  a whole number of milliseconds since the epoch, and at most \<open>8.64 * 10^15\<close> in
  magnitude. An ISO string is identified with the date it denotes: \<^verbatim>\<open>toISOString\<close>
  prints a time value and \<^verbatim>\<open>new Date(string)\<close> reads it back, to the millisecond.
\<close>

datatype js_date = Invalid_Date | Time_Value int

datatype js_error = RangeError

definition msPerDay :: int where "msPerDay = 86400000"
definition msPerHour :: int where "msPerHour = 3600000"
definition msPerMinute :: int where "msPerMinute = 60000"
definition msPerSecond :: int where "msPerSecond = 1000"

definition Day :: "int \<Rightarrow> int" where
  "Day t = t div msPerDay"

definition DaysInYear :: "int \<Rightarrow> int" where
  "DaysInYear y =
     (if y mod 4 \<noteq> 0 then 365 else if y mod 100 \<noteq> 0 then 366
      else if y mod 400 \<noteq> 0 then 365 else 366)"

definition DayFromYear :: "int \<Rightarrow> int" where
  "DayFromYear y =
     365 * (y - 1970) + (y - 1969) div 4 - (y - 1901) div 100 + (y - 1601) div 400"

definition YearFromDay :: "int \<Rightarrow> int" where
  \<comment> \<open>The largest year that starts on or before the day (lemma \<open>YearFromDay_bounds\<close>):
      the 400-year average places it within one year, and the two tests settle it.\<close>
  "YearFromDay d =
     (let y = 1970 + (400 * d) div 146097
      in if DayFromYear (y + 1) \<le> d then y + 1
         else if DayFromYear y \<le> d then y else y - 1)"

definition YearFromTime :: "int \<Rightarrow> int" where
  "YearFromTime t = YearFromDay (Day t)"

definition InLeapYear :: "int \<Rightarrow> int" where
  "InLeapYear t = (if DaysInYear (YearFromTime t) = 366 then 1 else 0)"

definition DayWithinYear :: "int \<Rightarrow> int" where
  "DayWithinYear t = Day t - DayFromYear (YearFromTime t)"

definition MonthFromTime :: "int \<Rightarrow> int" where
  "MonthFromTime t =
     (let d = DayWithinYear t; l = InLeapYear t
      in if d < 31 then 0 else if d < 59 + l then 1 else if d < 90 + l then 2
         else if d < 120 + l then 3 else if d < 151 + l then 4 else if d < 181 + l then 5
         else if d < 212 + l then 6 else if d < 243 + l then 7 else if d < 273 + l then 8
         else if d < 304 + l then 9 else if d < 334 + l then 10 else 11)"

definition DateFromTime :: "int \<Rightarrow> int" where
  "DateFromTime t =
     (let d = DayWithinYear t; l = InLeapYear t; m = MonthFromTime t
      in if m = 0 then d + 1 else if m = 1 then d - 30 else if m = 2 then d - 58 - l
         else if m = 3 then d - 89 - l else if m = 4 then d - 119 - l
         else if m = 5 then d - 150 - l else if m = 6 then d - 180 - l
         else if m = 7 then d - 211 - l else if m = 8 then d - 242 - l
         else if m = 9 then d - 272 - l else if m = 10 then d - 303 - l
         else d - 333 - l)"

definition HourFromTime :: "int \<Rightarrow> int" where
  "HourFromTime t = (t div msPerHour) mod 24"

definition MinFromTime :: "int \<Rightarrow> int" where
  "MinFromTime t = (t div msPerMinute) mod 60"

definition SecFromTime :: "int \<Rightarrow> int" where
  "SecFromTime t = (t div msPerSecond) mod 60"

definition MakeTime :: "int \<Rightarrow> int \<Rightarrow> int \<Rightarrow> int \<Rightarrow> int" where
  "MakeTime hour minute sec ms = hour * msPerHour + minute * msPerMinute + sec * msPerSecond + ms"

definition DaysBeforeMonth :: "int \<Rightarrow> int \<Rightarrow> int" where
  \<comment> \<open>the day within year \<open>y\<close> on which month \<open>mn\<close> (0 to 11) starts\<close>
  "DaysBeforeMonth y mn =
     (let l = (if DaysInYear y = 366 then 1 else 0)
      in if mn = 0 then 0 else if mn = 1 then 31 else if mn = 2 then 59 + l
         else if mn = 3 then 90 + l else if mn = 4 then 120 + l else if mn = 5 then 151 + l
         else if mn = 6 then 181 + l else if mn = 7 then 212 + l else if mn = 8 then 243 + l
         else if mn = 9 then 273 + l else if mn = 10 then 304 + l else 334 + l)"

definition DaysInMonth :: "int \<Rightarrow> int \<Rightarrow> int" where
  \<comment> \<open>the number of days of month \<open>m\<close> (1 to 12) of year \<open>y\<close>: what separates a date of
      the calendar from fields that \<^verbatim>\<open>Date.UTC\<close> rolls over\<close>
  "DaysInMonth y m =
     (if m = 2 then (if DaysInYear y = 366 then 29 else 28)
      else if m = 4 \<or> m = 6 \<or> m = 9 \<or> m = 11 then 30 else 31)"

definition MakeDay :: "int \<Rightarrow> int \<Rightarrow> int \<Rightarrow> int" where
  \<comment> \<open>The day number of the first of month \<open>mn\<close> in year \<open>ym\<close>, plus \<open>date - 1\<close>.\<close>
  "MakeDay year month date =
     (let ym = year + month div 12; mn = month mod 12
      in DayFromYear ym + DaysBeforeMonth ym mn + date - 1)"

definition MakeDate :: "int \<Rightarrow> int \<Rightarrow> int" where
  "MakeDate day time = day * msPerDay + time"

definition TimeClip :: "int \<Rightarrow> js_date" where
  "TimeClip t = (if \<bar>t\<bar> > 8640000000000000 then Invalid_Date else Time_Value t)"

definition Date_UTC :: "int \<Rightarrow> int \<Rightarrow> int \<Rightarrow> int \<Rightarrow> int \<Rightarrow> int \<Rightarrow> js_date" where
  \<comment> \<open>\<^verbatim>\<open>Date.UTC(year, month, day, hour, minute, second)\<close>; a year from 0 to 99 means
      1900 + year.\<close>
  "Date_UTC year month date hour minute sec =
     (let yr = (if 0 \<le> year \<and> year \<le> 99 then 1900 + year else year)
      in TimeClip (MakeDate (MakeDay yr month date) (MakeTime hour minute sec 0)))"

section \<open>Strings of digits\<close>

definition digit_char :: "nat \<Rightarrow> char" where
  "digit_char d = ''0123456789'' ! d"

definition is_digit :: "char \<Rightarrow> bool" where
  "is_digit c = (c \<in> set ''0123456789'')"

definition digit_val :: "char \<Rightarrow> nat" where
  \<comment> \<open>the value of a decimal digit: its code minus the code of the digit zero\<close>
  "digit_val c = of_char c - 48"

fun digits_of_nat :: "nat \<Rightarrow> string" where
  "digits_of_nat n =
     (if n < 10 then [digit_char n] else digits_of_nat (n div 10) @ [digit_char (n mod 10)])"

declare digits_of_nat.simps [simp del]

definition String_of_int :: "int \<Rightarrow> string" where
  \<comment> \<open>\<^verbatim>\<open>String(value)\<close> and \<^verbatim>\<open>`${value}`\<close> of a whole number\<close>
  "String_of_int i = (if i < 0 then CHR ''-'' # digits_of_nat (nat (- i)) else digits_of_nat (nat i))"

definition Number_of_digits :: "string \<Rightarrow> int" where
  \<comment> \<open>\<^verbatim>\<open>Number(match[k])\<close> of a group of decimal digits\<close>
  "Number_of_digits s = int (foldl (\<lambda>acc c. acc * 10 + digit_val c) 0 s)"

definition padStart :: "nat \<Rightarrow> char \<Rightarrow> string \<Rightarrow> string" where
  "padStart n c s = replicate (n - length s) c @ s"

definition substring :: "string \<Rightarrow> nat \<Rightarrow> nat \<Rightarrow> string" where
  "substring s i j = take (j - i) (drop i s)"

section \<open>pages/TransactionsPage.tsx: dates\<close>

definition SHANGHAI_OFFSET_HOURS :: int where "SHANGHAI_OFFSET_HOURS = 8"

definition pad2 :: "int \<Rightarrow> string" where
  "pad2 v = padStart 2 (CHR ''0'') (String_of_int v)"

definition normalizeDateTimeLocal :: "string \<Rightarrow> string" where
  "normalizeDateTimeLocal v = (if length v = 16 then v @ '':00'' else v)"

definition date_time_regex :: "string \<Rightarrow> bool" where
  \<comment> \<open>\<^verbatim>\<open>/^(\d{4})-(\d{2})-(\d{2})T(\d{2}):(\d{2})(?::(\d{2}))?$/\<close>\<close>
  "date_time_regex s =
     ((length s = 16 \<or> length s = 19)
      \<and> list_all is_digit (substring s 0 4) \<and> s ! 4 = CHR ''-''
      \<and> list_all is_digit (substring s 5 7) \<and> s ! 7 = CHR ''-''
      \<and> list_all is_digit (substring s 8 10) \<and> s ! 10 = CHR ''T''
      \<and> list_all is_digit (substring s 11 13) \<and> s ! 13 = CHR '':''
      \<and> list_all is_digit (substring s 14 16)
      \<and> (if length s = 19 then s ! 16 = CHR '':'' \<and> list_all is_digit (substring s 17 19)
          else True))"

record date_fields =
  f_year :: int
  f_month :: int
  f_day :: int
  f_hour :: int
  f_minute :: int
  f_second :: int

definition parseDateTimeLocal :: "string \<Rightarrow> date_fields option" where
  \<comment> \<open>A group of digits is never NaN, so the test on NaN always passes.\<close>
  "parseDateTimeLocal v =
     (let normalized = normalizeDateTimeLocal v
      in if \<not> date_time_regex normalized then None
         else Some \<lparr>f_year = Number_of_digits (substring normalized 0 4),
                    f_month = Number_of_digits (substring normalized 5 7),
                    f_day = Number_of_digits (substring normalized 8 10),
                    f_hour = Number_of_digits (substring normalized 11 13),
                    f_minute = Number_of_digits (substring normalized 14 16),
                    f_second = (if length normalized = 19
                                then Number_of_digits (substring normalized 17 19)
                                else Number_of_digits ''0'')\<rparr>)"

definition formatUtcToDateTimeLocalByOffset :: "int \<Rightarrow> int \<Rightarrow> string" where
  \<comment> \<open>Every getter of an invalid date is NaN, printed as such.\<close>
  "formatUtcToDateTimeLocalByOffset utcMs offsetHours =
     (case TimeClip (utcMs + offsetHours * 3600 * 1000) of
        Invalid_Date \<Rightarrow> ''NaN-NaN-NaNTNaN:NaN:NaN''
      | Time_Value shifted \<Rightarrow>
          String_of_int (YearFromTime shifted) @ ''-'' @ pad2 (MonthFromTime shifted + 1)
            @ ''-'' @ pad2 (DateFromTime shifted) @ ''T'' @ pad2 (HourFromTime shifted)
            @ '':'' @ pad2 (MinFromTime shifted) @ '':'' @ pad2 (SecFromTime shifted))"

definition getNowShanghaiDateTime :: "int \<Rightarrow> string" where
  \<comment> \<open>the argument is \<^verbatim>\<open>Date.now()\<close>\<close>
  "getNowShanghaiDateTime now = formatUtcToDateTimeLocalByOffset now SHANGHAI_OFFSET_HOURS"

definition shanghaiLocalToIso :: "int \<Rightarrow> string \<Rightarrow> js_error + int" where
  \<comment> \<open>The result is the time value whose ISO string is returned; \<^verbatim>\<open>toISOString\<close> of an
      invalid date throws.\<close>
  "shanghaiLocalToIso now v =
     (case parseDateTimeLocal v of
        None \<Rightarrow> Inr now
      | Some parsed \<Rightarrow>
          (case Date_UTC (f_year parsed) (f_month parsed - 1) (f_day parsed)
                  (f_hour parsed - SHANGHAI_OFFSET_HOURS) (f_minute parsed) (f_second parsed) of
             Invalid_Date \<Rightarrow> Inl RangeError
           | Time_Value utcMs \<Rightarrow> Inr utcMs))"

definition isoToShanghaiLocalDateTime :: "int \<Rightarrow> js_date \<Rightarrow> string" where
  \<comment> \<open>The second argument is \<^verbatim>\<open>new Date(value)\<close>.\<close>
  "isoToShanghaiLocalDateTime now date =
     (case date of
        Invalid_Date \<Rightarrow> getNowShanghaiDateTime now
      | Time_Value t \<Rightarrow> formatUtcToDateTimeLocalByOffset t SHANGHAI_OFFSET_HOURS)"

section \<open>pages/TransactionsPage.tsx: the create form\<close>












record TransactionForm =
  form_type :: tx_type
  form_account_id :: nat
  form_counterparty_account_id :: "nat option"
  form_instrument_symbol :: "string option"
  form_instrument_id :: "nat option"
  form_quantity :: "real option"
  form_price :: "real option"
  form_amount :: "real option"
  form_fee :: "real option"
  form_tax :: "real option"
  form_currency :: string
  form_executed_at :: string
  form_note :: "string option"






definition TRADE_TYPES :: "tx_type set" where
  "TRADE_TYPES = {BUY, SELL}"






definition createSettlementPreview ::
  "tx_type \<Rightarrow> real option \<Rightarrow> real option \<Rightarrow> real option \<Rightarrow> real option" where
  \<comment> \<open>arguments: the type, and the form's amount, fee and tax\<close>
  "createSettlementPreview createType amt createFee createTax =
     (if createType \<notin> TRADE_TYPES then None
      else
        let principal = (case amt of None \<Rightarrow> 0 | Some a \<Rightarrow> a);
            fee = (case createFee of None \<Rightarrow> 0 | Some x \<Rightarrow> x);
            tax = (case createTax of None \<Rightarrow> 0 | Some x \<Rightarrow> x)
        in if principal \<le> 0 then None
           else Some (if createType = SELL then principal - fee - tax
                      else principal + fee + tax))"

section \<open>pages/TransactionsPage.tsx: the actions column\<close>

datatype tx_notice = TransactionDeleted | TransactionRequestFailed

record TransactionsPage =
  txs :: "Transaction list"
  editingTx :: "Transaction option"
  editForm :: "TransactionForm option"
  tx_shown :: "tx_notice option"

record row_actions =
  edit_disabled :: bool
  reverse_confirm_disabled :: bool
  reverse_disabled :: bool
  delete_disabled :: bool
  deletes_both_legs_hint :: bool

datatype request = POST_reverse nat | DELETE_transaction nat

definition isTransferRow :: "Transaction \<Rightarrow> bool" where
  \<comment> \<open>\<^verbatim>\<open>Boolean(tx.transfer_group_id)\<close>: \<^verbatim>\<open>null\<close> and the empty string are false.\<close>
  "isTransferRow tx = (case transfer_group_id tx of None \<Rightarrow> False | Some g \<Rightarrow> g \<noteq> [])"

definition actions_column :: "Transaction \<Rightarrow> row_actions" where
  \<comment> \<open>the \<^verbatim>\<open>disabled\<close> properties of the edit button, of the confirmation of the reversal
      and of its button; the delete button has none\<close>
  "actions_column tx =
     \<lparr>edit_disabled = isTransferRow tx,
      reverse_confirm_disabled = isTransferRow tx,
      reverse_disabled = isTransferRow tx,
      delete_disabled = False,
      deletes_both_legs_hint = (case transfer_group_id tx of None \<Rightarrow> False | Some g \<Rightarrow> g \<noteq> [])\<rparr>"

definition openEditModal :: "int \<Rightarrow> Transaction \<Rightarrow> TransactionsPage \<Rightarrow> TransactionsPage" where
  "openEditModal now tx page =
     page\<lparr>editingTx := Some tx,
          editForm := Some
            \<lparr>form_type = tx_kind tx,
             form_account_id = account_id tx,
             form_counterparty_account_id = None,
             form_instrument_symbol = None,
             form_instrument_id = instrument_id tx,
             form_quantity = quantity tx,
             form_price = price tx,
             form_amount = Some (amount tx),
             form_fee = Some (fee tx),
             form_tax = Some (tax tx),
             form_currency = currency tx,
             form_executed_at = isoToShanghaiLocalDateTime now (Time_Value (executed_at tx)),
             form_note = tx_note tx\<rparr>\<rparr>"

definition click_edit :: "int \<Rightarrow> Transaction \<Rightarrow> TransactionsPage \<Rightarrow> TransactionsPage" where
  \<comment> \<open>a disabled button does not call its \<^verbatim>\<open>onClick\<close>\<close>
  "click_edit now tx page =
     (if edit_disabled (actions_column tx) then page else openEditModal now tx page)"

definition onReverse :: "Transaction \<Rightarrow> request" where
  "onReverse tx = POST_reverse (tx_id tx)"

definition click_reverse :: "Transaction \<Rightarrow> request option" where
  \<comment> \<open>the button opens the confirmation, whose \<^verbatim>\<open>onConfirm\<close> is \<^verbatim>\<open>onReverse(tx)\<close>; neither
      reacts when disabled\<close>
  "click_reverse tx =
     (if reverse_disabled (actions_column tx) \<or> reverse_confirm_disabled (actions_column tx)
      then None else Some (onReverse tx))"

definition onDelete :: "Transaction \<Rightarrow> Transaction list \<times> TransactionsPage
     \<Rightarrow> Transaction list \<times> TransactionsPage" where
  \<comment> \<open>The first component is the ledger of the server; \<^verbatim>\<open>load()\<close> copies it into the
      page after the request.\<close>
  "onDelete tx s =
     (case ledger_delete (fst s) (tx_id tx) of
        Inl e \<Rightarrow> (fst s, (snd s)\<lparr>tx_shown := Some TransactionRequestFailed\<rparr>)
      | Inr r \<Rightarrow> (fst r, (snd s)\<lparr>tx_shown := Some TransactionDeleted, txs := fst r\<rparr>))"



section \<open>pages/AllocationPage.tsx\<close>

datatype notice =
    WeightSumMustBeHundred real
  | SiblingWeightsUpdated
  | ChooseLeafAndInstrument
  | InstrumentAddedToNode
  | RequestFailed

record AllocationPage =
  nodes :: "AllocationNode list"
  instruments :: "Instrument list"
  nodeWeightDrafts :: "nat \<rightharpoonup> real"
  selectedNodeId :: "nat option"
  leafInstrumentDraftId :: "nat option"
  shown :: "notice option"

definition nodeMap :: "AllocationNode list \<Rightarrow> nat \<rightharpoonup> AllocationNode" where
  \<comment> \<open>\<^verbatim>\<open>new Map(nodes.map((item) => [item.id, item]))\<close>: a later entry replaces an earlier
      one.\<close>
  "nodeMap ns = map_of (rev (map (\<lambda>item. (node_id item, item)) ns))"

definition childrenMap ::
  "(string \<Rightarrow> string \<Rightarrow> int) \<Rightarrow> AllocationNode list \<Rightarrow> nat option \<rightharpoonup> AllocationNode list" where
  \<comment> \<open>a key is present when some node has it as \<^verbatim>\<open>parent_id ?? null\<close>\<close>
  "childrenMap collate ns key =
     (let l = filter (\<lambda>n. parent_id n = key) ns
      in if l = [] then None else Some (sort_by (node_le collate) l))"

definition leafNodes :: "AllocationNode list \<Rightarrow> AllocationNode list" where
  "leafNodes ns =
     (let parentSet = List.map_filter parent_id ns
      in filter (\<lambda>n. node_id n \<notin> set parentSet) ns)"

definition selectedNode :: "AllocationPage \<Rightarrow> AllocationNode option" where
  \<comment> \<open>\<^verbatim>\<open>selectedNodeId ? nodeMap.get(selectedNodeId) ?? null : null\<close>; 0 is falsy.\<close>
  "selectedNode st =
     (case selectedNodeId st of
        None \<Rightarrow> None
      | Some i \<Rightarrow> if i = 0 then None else nodeMap (nodes st) i)"

definition selectedNodeHasChildren :: "(string \<Rightarrow> string \<Rightarrow> int) \<Rightarrow> AllocationPage \<Rightarrow> bool" where
  "selectedNodeHasChildren collate st =
     (case selectedNode st of
        None \<Rightarrow> False
      | Some n \<Rightarrow>
          (case childrenMap collate (nodes st) (Some (node_id n)) of
             None \<Rightarrow> 0 | Some l \<Rightarrow> length l) > 0)"

definition selectedNodeCanBindInstruments :: "(string \<Rightarrow> string \<Rightarrow> int) \<Rightarrow> AllocationPage \<Rightarrow> bool" where
  "selectedNodeCanBindInstruments collate st =
     (selectedNode st \<noteq> None \<and> \<not> selectedNodeHasChildren collate st)"

definition getSiblingNodes ::
  "(string \<Rightarrow> string \<Rightarrow> int) \<Rightarrow> AllocationNode list \<Rightarrow> nat option \<Rightarrow> AllocationNode list" where
  "getSiblingNodes collate ns parentId =
     sort_by (node_le collate) (filter (\<lambda>item. parent_id item = parentId) ns)"

definition draftWeight :: "(nat \<rightharpoonup> real) \<Rightarrow> AllocationNode \<Rightarrow> real" where
  \<comment> \<open>\<^verbatim>\<open>nodeWeightDrafts[item.id] ?? Number(item.target_weight)\<close>\<close>
  "draftWeight drafts item =
     (case drafts (node_id item) of Some d \<Rightarrow> d | None \<Rightarrow> target_weight item)"

definition proposedTotal :: "(nat \<rightharpoonup> real) \<Rightarrow> AllocationNode list \<Rightarrow> nat option \<Rightarrow> real" where
  \<comment> \<open>the sum of the proposed weights of the children of a parent: the draft of a child
      when it has one, its stored weight otherwise\<close>
  "proposedTotal drafts ns parentId =
     sum_list (map (draftWeight drafts) (filter (\<lambda>item. parent_id item = parentId) ns))"

definition saveNodeSiblingWeights ::
  "(AllocationNode list \<Rightarrow> nat option \<Rightarrow> (nat \<times> real) list \<Rightarrow> api_error + AllocationNode list)
     \<Rightarrow> (string \<Rightarrow> string \<Rightarrow> int) \<Rightarrow> nat option \<Rightarrow> AllocationNode list \<times> AllocationPage
     \<Rightarrow> AllocationNode list \<times> AllocationPage" where
  \<comment> \<open>The first argument is the server behind
      \<^verbatim>\<open>api.patch("/allocation/nodes/weights/batch", { parent_id, items })\<close>: from its node
      table, the parent and the items, an error or its new node table. The first
      component of the state is the node table of the server; \<^verbatim>\<open>load()\<close> after a
      successful request copies it into the page.\<close>
  "saveNodeSiblingWeights patch collate parentId s =
     (let srv = fst s; st = snd s;
          siblings = getSiblingNodes collate (nodes st) parentId
      in if length siblings = 0 then (srv, st)
         else
           let payloadItems = map (\<lambda>item. (node_id item, draftWeight (nodeWeightDrafts st) item)) siblings;
               total = sumDecimals (map (\<lambda>item. Some (snd item)) payloadItems)
           in if \<not> isHundred total DEFAULT_TOLERANCE
              then (srv, st\<lparr>shown := Some (WeightSumMustBeHundred total)\<rparr>)
              else (case patch srv parentId payloadItems of
                      Inl e \<Rightarrow> (srv, st\<lparr>shown := Some RequestFailed\<rparr>)
                    | Inr srv' \<Rightarrow>
                        (srv', st\<lparr>shown := Some SiblingWeightsUpdated,
                                  nodeWeightDrafts :=
                                    (\<lambda>k. if k \<in> set (map node_id siblings) then None
                                         else nodeWeightDrafts st k),
                                  nodes := srv'\<rparr>)))"

definition bindInstrumentToNode ::
  "(AllocationNode list \<Rightarrow> Instrument list \<Rightarrow> nat \<Rightarrow> nat \<Rightarrow> api_error + Instrument list)
     \<Rightarrow> (string \<Rightarrow> string \<Rightarrow> int) \<Rightarrow> (AllocationNode list \<times> Instrument list) \<times> AllocationPage
     \<Rightarrow> (AllocationNode list \<times> Instrument list) \<times> AllocationPage" where
  \<comment> \<open>The first argument is the server behind
      \<^verbatim>\<open>api.patch(`/instruments/${id}`, { allocation_node_id })\<close>: from its node table, its
      instrument table, the instrument id and the node id, an error or its new instrument
      table. The first component of the state is the server: its node table and its
      instrument table; \<^verbatim>\<open>load()\<close> after a successful request copies both into the
      page.\<close>
  "bindInstrumentToNode patch collate s =
     (let srv = fst s; st = snd s
      in case (selectedNode st, leafInstrumentDraftId st) of
           (Some n, Some iid) \<Rightarrow>
             if \<not> selectedNodeCanBindInstruments collate st
             then (srv, st\<lparr>shown := Some ChooseLeafAndInstrument\<rparr>)
             else (case patch (fst srv) (snd srv) iid (node_id n) of
                     Inl e \<Rightarrow> (srv, st\<lparr>shown := Some RequestFailed\<rparr>)
                   | Inr instruments' \<Rightarrow>
                       ((fst srv, instruments'),
                        st\<lparr>leafInstrumentDraftId := None,
                           shown := Some InstrumentAddedToNode,
                           nodes := fst srv,
                           instruments := instruments'\<rparr>))
         | _ \<Rightarrow> (srv, st\<lparr>shown := Some ChooseLeafAndInstrument\<rparr>))"

partial_function (option) calc ::
  "(nat \<rightharpoonup> AllocationNode) \<Rightarrow> (nat \<rightharpoonup> real) \<Rightarrow> AllocationNode \<Rightarrow> (real \<times> (nat \<rightharpoonup> real)) option" where
  "calc nm memo node =
     (case memo (node_id node) of
        Some w \<Rightarrow> Some (w, memo)
      | None \<Rightarrow>
          (let currentWeight = target_weight node
           in case parent_id node of
                None \<Rightarrow> Some (currentWeight, memo(node_id node \<mapsto> currentWeight))
              | Some p \<Rightarrow>
                  (case nm p of
                     None \<Rightarrow> Some (0, memo(node_id node \<mapsto> 0))
                   | Some parent \<Rightarrow>
                       Option.bind (calc nm memo parent)
                         (\<lambda>r. let globalWeight = (fst r * currentWeight) / 100
                              in Some (globalWeight, (snd r)(node_id node \<mapsto> globalWeight))))))"

text \<open>
  \<^const>\<open>calc\<close> is the recursive closure of \<^verbatim>\<open>nodeGlobalWeightMap\<close>; the map it fills is
  passed in and returned. \<^const>\<open>None\<close> is a recursion that does not return (a cycle of
  parent pointers).
\<close>

fun calc_all ::
  "(nat \<rightharpoonup> AllocationNode) \<Rightarrow> (nat \<rightharpoonup> real) \<Rightarrow> AllocationNode list \<Rightarrow> (nat \<rightharpoonup> real) option" where
  "calc_all nm memo [] = Some memo"
| "calc_all nm memo (node # rest) =
     (case calc nm memo node of None \<Rightarrow> None | Some r \<Rightarrow> calc_all nm (snd r) rest)"

definition nodeGlobalWeightMap :: "AllocationNode list \<Rightarrow> (nat \<rightharpoonup> real) option" where
  \<comment> \<open>\<^verbatim>\<open>nodes.forEach((node) => { calc(node); })\<close> from the empty map\<close>
  "nodeGlobalWeightMap ns = calc_all (nodeMap ns) Map.empty ns"

partial_function (option) globalWeight :: "(nat \<rightharpoonup> AllocationNode) \<Rightarrow> AllocationNode \<Rightarrow> real option" where
  "globalWeight nm node =
     (case parent_id node of
        None \<Rightarrow> Some (target_weight node)
      | Some p \<Rightarrow>
          (case nm p of
             None \<Rightarrow> Some 0
           | Some parent \<Rightarrow>
               Option.bind (globalWeight nm parent) (\<lambda>w. Some ((w * target_weight node) / 100))))"

text \<open>
  \<^const>\<open>globalWeight\<close> is the recursion of \<^const>\<open>calc\<close> with the lookups and the stores of the
  memo removed: the reference for "memoization does not change the result".
\<close>

declare calc.simps [code]

declare globalWeight.simps [code]

definition memo_ok :: "AllocationNode list \<Rightarrow> (nat \<rightharpoonup> real) \<Rightarrow> bool" where
  \<comment> \<open>the invariant of the memo: what it holds for a node is the node's global weight\<close>
  "memo_ok ns memo =
     (\<forall>n \<in> set ns. \<forall>w. memo (node_id n) = Some w \<longrightarrow> globalWeight (nodeMap ns) n = Some w)"

section \<open>pages/DashboardPage.tsx and pages/HoldingsPage.tsx\<close>

record curve_option =
  xAxis_data :: "string list"
  series_data :: "real list"
  yAxis_min :: real
  yAxis_max :: real

definition curve_series :: "ReturnCurvePoint list \<Rightarrow> (string \<times> real) list" where
  \<comment> \<open>the \<^verbatim>\<open>series\<close> of \<^verbatim>\<open>buildCurveOption\<close>: the points whose rate is not \<^verbatim>\<open>null\<close> (a
      number of the model is always finite)\<close>
  "curve_series points =
     List.map_filter (\<lambda>item. case total_return_rate item of
                                None \<Rightarrow> None
                              | Some r \<Rightarrow> Some (point_date item, r)) points"

definition buildCurveOption :: "(string \<Rightarrow> string) \<Rightarrow> ReturnCurvePoint list \<Rightarrow> curve_option option" where
  \<comment> \<open>The first argument is \<^verbatim>\<open>formatShortDate\<close>, the locale's short date.\<close>
  "buildCurveOption formatShortDate points =
     (let series = curve_series points
      in if length series < 2 then None
         else
           let vals = map (\<lambda>item. toFixedNumber 6 (snd item)) series;
               dates = map (\<lambda>item. formatShortDate (fst item)) series;
               maxValue = fold max (tl vals) (hd vals);
               minValue = fold min (tl vals) (hd vals);
               spread = max (maxValue - minValue) (1 / 10000);
               padding = spread * (15 / 100);
               yMaxRaw = maxValue + padding;
               yMinRaw = minValue - padding
           in Some \<lparr>xAxis_data = dates, series_data = vals,
                     yAxis_min = toFixedNumber 3 yMinRaw,
                     yAxis_max = toFixedNumber 3
                                   (yMaxRaw + (if \<bar>yMaxRaw - yMinRaw\<bar> < 1 / 1000 then 1 / 1000 else 0))\<rparr>)"

record derived =
  alertedCount :: nat
  netContribution :: real
  totalReturn :: real
  totalReturnRate :: "real option"
  latestRate :: "real option"

definition derived_of :: "real option \<Rightarrow> ReturnCurvePoint list \<Rightarrow> DriftItem list \<Rightarrow> derived" where
  \<comment> \<open>The first argument is \<^verbatim>\<open>summary.total_assets\<close>, or \<^const>\<open>None\<close> while there is no
      summary.\<close>
  "derived_of summary curve driftItems =
     (case summary of
        None \<Rightarrow> \<lparr>alertedCount = 0, netContribution = 0, totalReturn = 0,
                  totalReturnRate = None, latestRate = None\<rparr>
      | Some totalAssets \<Rightarrow>
          (let lastCurvePoint = (if curve = [] then None else Some (last curve));
               nc = (case lastCurvePoint of None \<Rightarrow> 0 | Some p \<Rightarrow> net_contribution p);
               curveRates = List.map_filter total_return_rate curve
           in \<lparr>alertedCount = length (filter is_alerted driftItems),
               netContribution = nc,
               totalReturn = (case lastCurvePoint of None \<Rightarrow> totalAssets - nc
                              | Some p \<Rightarrow> total_return p),
               totalReturnRate = (case lastCurvePoint of None \<Rightarrow> None
                                  | Some p \<Rightarrow> total_return_rate p),
               latestRate = (if curveRates = [] then None else Some (last curveRates))\<rparr>))"

definition kpi_totalReturnRate :: "derived \<Rightarrow> display" where
  \<comment> \<open>\<^verbatim>\<open>derived.totalReturnRate === null ? "-" : formatPercent(derived.totalReturnRate)\<close>\<close>
  "kpi_totalReturnRate d = formatPercentOrDash (totalReturnRate d)"

definition driftBarColor :: "real \<Rightarrow> string" where
  \<comment> \<open>\<^verbatim>\<open>buildDriftOption\<close>, the colour of a bar whose value is \<^verbatim>\<open>Math.abs(drift_pct)\<close>\<close>
  "driftBarColor v = (if v > 5 then ''#d9363e'' else ''#1f4f94'')"

definition buildDriftOption_colors :: "DriftItem list \<Rightarrow> string list" where
  "buildDriftOption_colors items = map (\<lambda>item. driftBarColor \<bar>drift_pct item\<bar>) items"

definition driftTextColor :: "real \<Rightarrow> string" where
  \<comment> \<open>\<^verbatim>\<open>driftColumns\<close> of the holdings page, the colour of the drift cell\<close>
  "driftTextColor v = (if \<bar>v\<bar> \<ge> 5 then ''#d46b08'' else ''#1f4f94'')"

definition driftStatusTag :: "DriftItem \<Rightarrow> string" where
  "driftStatusTag item = (if is_alerted item then ''error'' else ''success'')"

section \<open>Example data\<close>

text \<open>
  A small tree, an instrument and a ledger, used to run the definitions: the ledger
  follows the rows of \<^verbatim>\<open>CSV_TEMPLATE\<close> (a cash-in of 10000, a buy of 10 units at 100 with a
  fee of 1, a transfer of 5000 as its two rows).
\<close>

definition node_equity :: AllocationNode where
  "node_equity = \<lparr>node_id = 1, parent_id = None, node_name = ''Equity'',
                   target_weight = 80, order_index = 0\<rparr>"

definition node_cn :: AllocationNode where
  "node_cn = \<lparr>node_id = 2, parent_id = Some 1, node_name = ''CN'',
               target_weight = 60, order_index = 0\<rparr>"

definition node_us :: AllocationNode where
  "node_us = \<lparr>node_id = 3, parent_id = Some 1, node_name = ''US'',
               target_weight = 40, order_index = 1\<rparr>"

definition node_lost :: AllocationNode where
  \<comment> \<open>its parent id names no node\<close>
  "node_lost = \<lparr>node_id = 4, parent_id = Some 9, node_name = ''Lost'',
                 target_weight = 40, order_index = 2\<rparr>"

definition moutai :: "nat option \<Rightarrow> Instrument" where
  \<comment> \<open>the argument is the node the instrument is bound to\<close>
  "moutai bound = \<lparr>inst_id = 1, symbol = ''600519.SS'', market = ''CN'', inst_type = STOCK,
                    inst_currency = ''CNY'', inst_name = ''Kweichow Moutai'',
                    default_account_id = Some 1, allocation_node_id = bound\<rparr>"

definition row_cash_in :: Transaction where
  "row_cash_in = \<lparr>tx_id = 1, tx_kind = CASH_IN, account_id = 1, instrument_id = None,
                   quantity = None, price = None, amount = 10000, fee = 0, tax = 0,
                   currency = ''CNY'', executed_at = 1770514200000,
                   executed_tz = ''Asia/Shanghai'', transfer_group_id = None, tx_note = None\<rparr>"

definition row_buy :: Transaction where
  "row_buy = \<lparr>tx_id = 2, tx_kind = BUY, account_id = 1, instrument_id = Some 1,
               quantity = Some 10, price = Some 100, amount = 1000, fee = 1, tax = 0,
               currency = ''CNY'', executed_at = 1770516000000,
               executed_tz = ''Asia/Shanghai'', transfer_group_id = None, tx_note = None\<rparr>"

definition leg_out :: Transaction where
  "leg_out = \<lparr>tx_id = 3, tx_kind = INTERNAL_TRANSFER, account_id = 1, instrument_id = None,
               quantity = None, price = None, amount = 5000, fee = 0, tax = 0,
               currency = ''CNY'', executed_at = 1770519600000,
               executed_tz = ''Asia/Shanghai'', transfer_group_id = Some ''g-1'',
               tx_note = None\<rparr>"

definition leg_in :: Transaction where
  "leg_in = \<lparr>tx_id = 4, tx_kind = INTERNAL_TRANSFER, account_id = 2, instrument_id = None,
              quantity = None, price = None, amount = 5000, fee = 0, tax = 0,
              currency = ''CNY'', executed_at = 1770519600000,
              executed_tz = ''Asia/Shanghai'', transfer_group_id = Some ''g-1'',
              tx_note = None\<rparr>"

definition ledger_page :: TransactionsPage where
  "ledger_page = \<lparr>txs = [row_cash_in, row_buy, leg_out, leg_in], editingTx = None,
                   editForm = None, tx_shown = None\<rparr>"





definition allocation_page :: "(nat \<rightharpoonup> real) \<Rightarrow> nat \<Rightarrow> AllocationPage" where
  \<comment> \<open>the page on the example tree, with the given drafts and selected node, and the
      example instrument chosen for binding\<close>
  "allocation_page drafts sel =
     \<lparr>nodes = [node_equity, node_cn, node_us], instruments = [], nodeWeightDrafts = drafts,
      selectedNodeId = Some sel, leafInstrumentDraftId = Some 1, shown = None\<rparr>"

section \<open>Properties: sorting and sums\<close>

lemma mset_insert_by: "mset (insert_by le x xs) = add_mset x (mset xs)"
  by (induction xs) auto

lemma mset_sort_by: "mset (sort_by le xs) = mset xs"
  unfolding sort_by_def by (induction xs) (auto simp: mset_insert_by)

lemma set_sort_by: "set (sort_by le xs) = set xs"
  using mset_sort_by [of le xs] by (metis set_mset_mset)

lemma sum_list_sort_by:
  fixes f :: "'a \<Rightarrow> real"
  shows "sum_list (map f (sort_by le xs)) = sum_list (map f xs)"
proof -
  have "mset (map f (sort_by le xs)) = mset (map f xs)"
    by (simp add: mset_sort_by)
  then show ?thesis
    by (metis sum_mset_sum_list)
qed

lemma distinct_map_sort_by: "distinct (map f (sort_by le xs)) = distinct (map f xs)"
proof -
  have "mset (map f (sort_by le xs)) = mset (map f xs)"
    by (simp add: mset_sort_by)
  then show ?thesis
    by (rule mset_eq_imp_distinct_iff)
qed

lemma foldl_add_sum: "foldl (\<lambda>acc c. acc + g c) a xs = (a::real) + sum_list (map g xs)"
  by (induction xs arbitrary: a) auto

lemma sumDecimals_Some: "sumDecimals (map (\<lambda>x. Some (f x)) xs) = sum_list (map f xs)"
proof -
  have "sumDecimals (map (\<lambda>x. Some (f x)) xs)
        = 0 + sum_list (map (\<lambda>c. case toNumber c of None \<Rightarrow> 0 | Some v \<Rightarrow> v) (map (\<lambda>x. Some (f x)) xs))"
    unfolding sumDecimals_def by (rule foldl_add_sum)
  also have "\<dots> = sum_list (map f xs)"
    by (simp add: toNumber_def comp_def)
  finally show ?thesis .
qed

lemma length_sort_by: "length (sort_by le xs) = length xs"
  by (metis mset_sort_by size_mset)

lemma nodeMap_SomeD:
  assumes "nodeMap ns i = Some n"
  shows "n \<in> set ns \<and> node_id n = i"
proof -
  from assms have "(i, n) \<in> set (rev (map (\<lambda>item. (node_id item, item)) ns))"
    unfolding nodeMap_def by (rule map_of_SomeD)
  then show ?thesis by auto
qed

lemma nodeMap_member:
  assumes "distinct (map node_id ns)" and "n \<in> set ns"
  shows "nodeMap ns (node_id n) = Some n"
proof -
  have "distinct (map fst (rev (map (\<lambda>item. (node_id item, item)) ns)))"
    using assms(1) by (simp add: rev_map [symmetric] comp_def)
  moreover have "(node_id n, n) \<in> set (rev (map (\<lambda>item. (node_id item, item)) ns))"
    using assms(2) by auto
  ultimately show ?thesis
    unfolding nodeMap_def by (rule map_of_is_SomeI)
qed

lemma same_node:
  assumes "distinct (map node_id ns)" and "n \<in> set ns" and "m \<in> set ns"
      and "node_id m = node_id n"
  shows "m = n"
  using assms by (meson distinct_map inj_onD)

section \<open>Properties: the sibling weight batch\<close>

lemma map_of_payload:
  assumes "distinct (map node_id xs)" and "n \<in> set xs"
  shows "map_of (map (\<lambda>item. (node_id item, f item)) xs) (node_id n) = Some (f n)"
proof -
  have "distinct (map fst (map (\<lambda>item. (node_id item, f item)) xs))"
    using assms(1) by (simp add: comp_def)
  moreover have "(node_id n, f n) \<in> set (map (\<lambda>item. (node_id item, f item)) xs)"
    using assms(2) by auto
  ultimately show ?thesis by (rule map_of_is_SomeI)
qed

lemma payload_total:
  "sumDecimals (map (\<lambda>item. Some (snd item))
      (map (\<lambda>item. (node_id item, draftWeight d item)) (getSiblingNodes collate ns parentId)))
   = proposedTotal d ns parentId"
proof -
  have "sumDecimals (map (\<lambda>item. Some (snd item))
          (map (\<lambda>item. (node_id item, draftWeight d item)) (getSiblingNodes collate ns parentId)))
      = sumDecimals (map (\<lambda>item. Some (draftWeight d item)) (getSiblingNodes collate ns parentId))"
    by (simp add: comp_def)
  also have "\<dots> = sum_list (map (draftWeight d) (getSiblingNodes collate ns parentId))"
    by (rule sumDecimals_Some)
  also have "\<dots> = proposedTotal d ns parentId"
    unfolding getSiblingNodes_def proposedTotal_def by (rule sum_list_sort_by)
  finally show ?thesis .
qed

lemma batch_applies:
  assumes d: "distinct (map node_id ns)"
  shows "map (\<lambda>n. if parent_id n = parentId
                   then (case map_of (map (\<lambda>item. (node_id item, draftWeight dr item))
                                       (getSiblingNodes collate ns parentId)) (node_id n) of
                           Some w \<Rightarrow> n\<lparr>target_weight := w\<rparr>
                         | None \<Rightarrow> n)
                   else n) ns
       = map (\<lambda>n. if parent_id n = parentId then n\<lparr>target_weight := draftWeight dr n\<rparr> else n) ns"
proof (rule map_cong [OF refl])
  fix n assume n: "n \<in> set ns"
  have dd: "distinct (map node_id (getSiblingNodes collate ns parentId))"
    unfolding getSiblingNodes_def using d by (simp add: distinct_map_sort_by distinct_map_filter)
  show "(if parent_id n = parentId
         then (case map_of (map (\<lambda>item. (node_id item, draftWeight dr item))
                             (getSiblingNodes collate ns parentId)) (node_id n) of
                 Some w \<Rightarrow> n\<lparr>target_weight := w\<rparr>
               | None \<Rightarrow> n)
         else n) = (if parent_id n = parentId then n\<lparr>target_weight := draftWeight dr n\<rparr> else n)"
  proof (cases "parent_id n = parentId")
    case True
    then have "n \<in> set (getSiblingNodes collate ns parentId)"
      using n by (simp add: getSiblingNodes_def set_sort_by)
    from map_of_payload [OF dd this, where f = "draftWeight dr"] True show ?thesis by simp
  next
    case False
    then show ?thesis by simp
  qed
qed

text \<open>
  C1. The page shows the node table of the server, whose ids are distinct. Let \<open>total\<close>
  be the sum of the proposed weights of the children of \<open>parentId\<close>. When \<open>total\<close>
  deviates from 100 by more than 0.0001, saving sends nothing, whatever the server: the
  table of the server, the nodes of the page and the drafts are what they were; so it is
  for a total of 99 and of 101. When \<open>total\<close> is within 0.0001 of 100, one request
  carries every child with its proposed weight, and the page shows the table the server
  answers with (or keeps its own when the server fails). The server of the
  specification answers with the table in which every child has its proposed weight and
  every other node is unchanged.
\<close>

theorem saveNodeSiblingWeights_all_or_nothing:
  assumes "distinct (map node_id srv)" and "nodes st = srv"
  shows "(let total = proposedTotal (nodeWeightDrafts st) srv parentId;
              request = map (\<lambda>item. (node_id item, draftWeight (nodeWeightDrafts st) item))
                          (getSiblingNodes collate srv parentId);
              applied = map (\<lambda>n. if parent_id n = parentId
                                   then n\<lparr>target_weight := draftWeight (nodeWeightDrafts st) n\<rparr>
                                   else n) srv;
              r = saveNodeSiblingWeights patch collate parentId (srv, st)
          in (\<bar>total - 100\<bar> > 1 / 10000 \<longrightarrow>
                fst r = srv \<and> nodes (snd r) = nodes st
                \<and> nodeWeightDrafts (snd r) = nodeWeightDrafts st)
           \<and> (total = 99 \<or> total = 101 \<longrightarrow>
                fst r = srv \<and> nodes (snd r) = nodes st
                \<and> nodeWeightDrafts (snd r) = nodeWeightDrafts st)
           \<and> (\<bar>total - 100\<bar> \<le> 1 / 10000 \<longrightarrow>
                (\<forall>n \<in> set srv. parent_id n = parentId \<longrightarrow>
                    map_of request (node_id n) = Some (draftWeight (nodeWeightDrafts st) n))
                \<and> (case patch srv parentId request of
                      Inr srv' \<Rightarrow> fst r = srv' \<and> nodes (snd r) = srv'
                    | Inl e \<Rightarrow> fst r = srv \<and> nodes (snd r) = nodes st)
                \<and> batch_update_weights srv parentId request = Inr applied
                \<and> fst (saveNodeSiblingWeights batch_update_weights collate parentId (srv, st))
                    = applied))"
proof -
  let ?sib = "getSiblingNodes collate srv parentId"
  let ?total = "proposedTotal (nodeWeightDrafts st) srv parentId"
  let ?items = "map (\<lambda>item. (node_id item, draftWeight (nodeWeightDrafts st) item)) ?sib"
  let ?applied = "map (\<lambda>n. if parent_id n = parentId
                         then n\<lparr>target_weight := draftWeight (nodeWeightDrafts st) n\<rparr> else n) srv"
  let ?r = "saveNodeSiblingWeights patch collate parentId (srv, st)"
  have tot: "sumDecimals (map (\<lambda>item. Some (snd item)) ?items) = ?total"
    by (rule payload_total)
  have tot2: "sum_list (map snd ?items) = ?total"
    unfolding proposedTotal_def getSiblingNodes_def
    using sum_list_sort_by [of "draftWeight (nodeWeightDrafts st)" "node_le collate"]
    by (simp add: comp_def)
  have empty: "length ?sib = 0 \<Longrightarrow> ?total = 0"
    unfolding proposedTotal_def getSiblingNodes_def
    using set_sort_by [of "node_le collate" "filter (\<lambda>item. parent_id item = parentId) srv"]
    by simp
  have rej: "\<bar>?total - 100\<bar> > 1 / 10000 \<Longrightarrow>
      fst ?r = srv \<and> nodes (snd ?r) = nodes st \<and> nodeWeightDrafts (snd ?r) = nodeWeightDrafts st"
    using assms(2) tot
    by (simp add: saveNodeSiblingWeights_def Let_def isHundred_def DEFAULT_TOLERANCE_def)
  have dd: "distinct (map node_id ?sib)"
    unfolding getSiblingNodes_def using assms(1)
    by (simp add: distinct_map_sort_by distinct_map_filter)
  have carried: "\<forall>n \<in> set srv. parent_id n = parentId \<longrightarrow>
                    map_of ?items (node_id n) = Some (draftWeight (nodeWeightDrafts st) n)"
  proof (intro ballI impI)
    fix n assume "n \<in> set srv" and "parent_id n = parentId"
    then have "n \<in> set ?sib" by (simp add: getSiblingNodes_def set_sort_by)
    from map_of_payload [OF dd this, where f = "draftWeight (nodeWeightDrafts st)"]
    show "map_of ?items (node_id n) = Some (draftWeight (nodeWeightDrafts st) n)" .
  qed
  have sent: "\<And>p. \<bar>?total - 100\<bar> \<le> 1 / 10000 \<Longrightarrow>
      saveNodeSiblingWeights p collate parentId (srv, st)
      = (case p srv parentId ?items of
           Inl e \<Rightarrow> (srv, st\<lparr>shown := Some RequestFailed\<rparr>)
         | Inr srv' \<Rightarrow>
             (srv', st\<lparr>shown := Some SiblingWeightsUpdated,
                       nodeWeightDrafts :=
                         (\<lambda>k. if k \<in> set (map node_id (getSiblingNodes collate (nodes st) parentId))
                              then None
                              else nodeWeightDrafts st k),
                       nodes := srv'\<rparr>))"
  proof -
    fix p assume a: "\<bar>?total - 100\<bar> \<le> 1 / 10000"
    then have ne: "length ?sib \<noteq> 0" using empty by auto
    show "saveNodeSiblingWeights p collate parentId (srv, st)
      = (case p srv parentId ?items of
           Inl e \<Rightarrow> (srv, st\<lparr>shown := Some RequestFailed\<rparr>)
         | Inr srv' \<Rightarrow>
             (srv', st\<lparr>shown := Some SiblingWeightsUpdated,
                       nodeWeightDrafts :=
                         (\<lambda>k. if k \<in> set (map node_id (getSiblingNodes collate (nodes st) parentId))
                              then None
                              else nodeWeightDrafts st k),
                       nodes := srv'\<rparr>))"
      using assms(2) tot a ne
      by (simp add: saveNodeSiblingWeights_def Let_def isHundred_def DEFAULT_TOLERANCE_def)
  qed
  have answer: "\<bar>?total - 100\<bar> \<le> 1 / 10000 \<Longrightarrow>
      (case patch srv parentId ?items of
         Inr srv' \<Rightarrow> fst ?r = srv' \<and> nodes (snd ?r) = srv'
       | Inl e \<Rightarrow> fst ?r = srv \<and> nodes (snd ?r) = nodes st)"
    using sent [of patch] by (simp split: sum.splits)
  have b: "\<bar>?total - 100\<bar> \<le> 1 / 10000 \<Longrightarrow>
      batch_update_weights srv parentId ?items = Inr ?applied"
    unfolding batch_update_weights_def using tot2 batch_applies [OF assms(1)]
    by (simp add: isHundred_def DEFAULT_TOLERANCE_def)
  have acc: "\<bar>?total - 100\<bar> \<le> 1 / 10000 \<Longrightarrow>
      fst (saveNodeSiblingWeights batch_update_weights collate parentId (srv, st)) = ?applied"
    using sent [of batch_update_weights] b by simp
  have part: "?total = 99 \<or> ?total = 101 \<Longrightarrow> \<bar>?total - 100\<bar> > 1 / 10000" by auto
  show ?thesis
    unfolding Let_def
  proof (intro conjI impI)
    assume "1 / 10000 < \<bar>?total - 100\<bar>"
    then show "fst ?r = srv" "nodes (snd ?r) = nodes st"
        "nodeWeightDrafts (snd ?r) = nodeWeightDrafts st"
      using rej by simp_all
  next
    assume "?total = 99 \<or> ?total = 101"
    then show "fst ?r = srv" "nodes (snd ?r) = nodes st"
        "nodeWeightDrafts (snd ?r) = nodeWeightDrafts st"
      using rej part by simp_all
  next
    assume a: "\<bar>?total - 100\<bar> \<le> 1 / 10000"
    show "\<forall>n \<in> set srv. parent_id n = parentId \<longrightarrow>
                    map_of ?items (node_id n) = Some (draftWeight (nodeWeightDrafts st) n)"
      by (rule carried)
    show "case patch srv parentId ?items of
         Inr srv' \<Rightarrow> fst ?r = srv' \<and> nodes (snd ?r) = srv'
       | Inl e \<Rightarrow> fst ?r = srv \<and> nodes (snd ?r) = nodes st"
      by (rule answer [OF a])
    show "batch_update_weights srv parentId ?items = Inr ?applied" by (rule b [OF a])
    show "fst (saveNodeSiblingWeights batch_update_weights collate parentId (srv, st)) = ?applied"
      by (rule acc [OF a])
  qed
qed

theorem saveNodeSiblingWeights_all_or_nothing_witness:
  "fst (saveNodeSiblingWeights batch_update_weights (\<lambda>a b. 0) (Some 1)
          ([node_equity, node_cn, node_us], allocation_page [2 \<mapsto> 70, 3 \<mapsto> 29] 2))
     = [node_equity, node_cn, node_us]
   \<and> fst (saveNodeSiblingWeights batch_update_weights (\<lambda>a b. 0) (Some 1)
          ([node_equity, node_cn, node_us], allocation_page [2 \<mapsto> 70, 3 \<mapsto> 30] 2))
     = [node_equity, node_cn\<lparr>target_weight := 70\<rparr>, node_us\<lparr>target_weight := 30\<rparr>]"
proof -
  let ?tree = "[node_equity, node_cn, node_us]"
  have d: "distinct (map node_id ?tree)"
    by (simp add: node_equity_def node_cn_def node_us_def)
  have p: "\<And>dr. nodes (allocation_page dr 2) = ?tree"
    by (simp add: allocation_page_def)
  have t99: "proposedTotal (nodeWeightDrafts (allocation_page [2 \<mapsto> 70, 3 \<mapsto> 29] 2)) ?tree (Some 1) = 99"
    by (simp add: proposedTotal_def draftWeight_def allocation_page_def
        node_equity_def node_cn_def node_us_def)
  have t100: "proposedTotal (nodeWeightDrafts (allocation_page [2 \<mapsto> 70, 3 \<mapsto> 30] 2)) ?tree (Some 1) = 100"
    by (simp add: proposedTotal_def draftWeight_def allocation_page_def
        node_equity_def node_cn_def node_us_def)
  have rejected: "fst (saveNodeSiblingWeights batch_update_weights (\<lambda>a b. 0) (Some 1)
                        (?tree, allocation_page [2 \<mapsto> 70, 3 \<mapsto> 29] 2)) = ?tree"
    using saveNodeSiblingWeights_all_or_nothing
            [OF d p, of "[2 \<mapsto> 70, 3 \<mapsto> 29]" "Some 1" "\<lambda>a b. 0" batch_update_weights] t99
    by (simp add: Let_def)
  have applied: "fst (saveNodeSiblingWeights batch_update_weights (\<lambda>a b. 0) (Some 1)
                        (?tree, allocation_page [2 \<mapsto> 70, 3 \<mapsto> 30] 2))
      = map (\<lambda>n. if parent_id n = Some 1
                  then n\<lparr>target_weight :=
                          draftWeight (nodeWeightDrafts (allocation_page [2 \<mapsto> 70, 3 \<mapsto> 30] 2)) n\<rparr>
                  else n) ?tree"
    using saveNodeSiblingWeights_all_or_nothing
            [OF d p, of "[2 \<mapsto> 70, 3 \<mapsto> 30]" "Some 1" "\<lambda>a b. 0" batch_update_weights] t100
    by (simp add: Let_def)
  have "map (\<lambda>n. if parent_id n = Some 1
                  then n\<lparr>target_weight :=
                          draftWeight (nodeWeightDrafts (allocation_page [2 \<mapsto> 70, 3 \<mapsto> 30] 2)) n\<rparr>
                  else n) ?tree
        = [node_equity, node_cn\<lparr>target_weight := 70\<rparr>, node_us\<lparr>target_weight := 30\<rparr>]"
    by (simp add: draftWeight_def allocation_page_def node_equity_def node_cn_def node_us_def)
  with rejected applied show ?thesis by simp
qed

section \<open>Properties: global weights\<close>

lemma globalWeight_root:
  "parent_id n = None \<Longrightarrow> globalWeight nm n = Some (target_weight n)"
  by (subst globalWeight.simps) simp

lemma globalWeight_orphan:
  "parent_id n = Some p \<Longrightarrow> nm p = None \<Longrightarrow> globalWeight nm n = Some 0"
  by (subst globalWeight.simps) simp

lemma globalWeight_child:
  "parent_id n = Some p \<Longrightarrow> nm p = Some pn \<Longrightarrow> globalWeight nm pn = Some w \<Longrightarrow>
   globalWeight nm n = Some ((w * target_weight n) / 100)"
  by (subst globalWeight.simps) simp

lemma calc_hit:
  "memo (node_id n) = Some w \<Longrightarrow> calc nm memo n = Some (w, memo)"
  by (subst calc.simps) simp

lemma calc_root:
  "memo (node_id n) = None \<Longrightarrow> parent_id n = None \<Longrightarrow>
   calc nm memo n = Some (target_weight n, memo(node_id n \<mapsto> target_weight n))"
  by (subst calc.simps) (simp add: Let_def)

lemma calc_orphan:
  "memo (node_id n) = None \<Longrightarrow> parent_id n = Some p \<Longrightarrow> nm p = None \<Longrightarrow>
   calc nm memo n = Some (0, memo(node_id n \<mapsto> 0))"
  by (subst calc.simps) (simp add: Let_def)

lemma calc_child:
  "memo (node_id n) = None \<Longrightarrow> parent_id n = Some p \<Longrightarrow> nm p = Some pn \<Longrightarrow>
   calc nm memo pn = Some (w, memo') \<Longrightarrow>
   calc nm memo n = Some ((w * target_weight n) / 100,
                          memo'(node_id n \<mapsto> (w * target_weight n) / 100))"
  by (subst calc.simps) (simp add: Let_def)

lemma memo_ok_update:
  assumes "distinct (map node_id ns)" and "n \<in> set ns" and "memo_ok ns memo"
      and "globalWeight (nodeMap ns) n = Some w"
  shows "memo_ok ns (memo(node_id n \<mapsto> w))"
  unfolding memo_ok_def
proof (intro ballI allI impI)
  fix m v assume m: "m \<in> set ns" and v: "(memo(node_id n \<mapsto> w)) (node_id m) = Some v"
  show "globalWeight (nodeMap ns) m = Some v"
  proof (cases "node_id m = node_id n")
    case True
    then have "m = n" using same_node [OF assms(1,2) m] by simp
    with v assms(4) show ?thesis by simp
  next
    case False
    with v have "memo (node_id m) = Some v" by simp
    with assms(3) m show ?thesis by (simp add: memo_ok_def)
  qed
qed

lemma calc_correct:
  fixes depth :: "AllocationNode \<Rightarrow> nat"
  assumes dist: "distinct (map node_id ns)"
      and depth: "\<forall>n \<in> set ns. \<forall>pn \<in> set ns.
                    parent_id n = Some (node_id pn) \<longrightarrow> depth pn < depth n"
      and "n \<in> set ns" and "memo_ok ns memo"
  shows "\<exists>w memo'. calc (nodeMap ns) memo n = Some (w, memo')
           \<and> globalWeight (nodeMap ns) n = Some w
           \<and> memo_ok ns memo' \<and> memo' (node_id n) = Some w
           \<and> (\<forall>i. memo i \<noteq> None \<longrightarrow> memo' i = memo i)"
  using assms(3,4)
proof (induction "depth n" arbitrary: n memo rule: less_induct)
  case less
  show ?case
  proof (cases "memo (node_id n)")
    case (Some w)
    with less.prems have "globalWeight (nodeMap ns) n = Some w"
      by (auto simp: memo_ok_def)
    with Some less.prems calc_hit [of memo n w "nodeMap ns"] show ?thesis
      by simp
  next
    case None
    note memoNone = None
    show ?thesis
    proof (cases "parent_id n")
      case None
      note g = globalWeight_root [OF None, of "nodeMap ns"]
      note c = calc_root [of memo n "nodeMap ns", OF memoNone None]
      from memo_ok_update [OF dist less.prems(1,2) g] g c memoNone show ?thesis
        by auto
    next
      case (Some p)
      note par = Some
      show ?thesis
      proof (cases "nodeMap ns p")
        case None
        note g = globalWeight_orphan [of n p "nodeMap ns", OF par None]
        note c = calc_orphan [of memo n p "nodeMap ns", OF memoNone par None]
        from memo_ok_update [OF dist less.prems(1,2) g] g c memoNone show ?thesis
          by auto
      next
        case (Some pn)
        from nodeMap_SomeD [OF Some] have pn: "pn \<in> set ns" "node_id pn = p" by auto
        with par less.prems have "depth pn < depth n"
          using depth by auto
        from less.hyps [OF this pn(1) less.prems(2)]
        obtain w memo' where r: "calc (nodeMap ns) memo pn = Some (w, memo')"
            "globalWeight (nodeMap ns) pn = Some w" "memo_ok ns memo'"
            "\<forall>i. memo i \<noteq> None \<longrightarrow> memo' i = memo i"
          by blast
        note g = globalWeight_child [of n p "nodeMap ns" pn w, OF par Some r(2)]
        note c = calc_child [of memo n p "nodeMap ns" pn w memo', OF memoNone par Some r(1)]
        let ?W = "(w * target_weight n) / 100"
        let ?M = "memo'(node_id n \<mapsto> ?W)"
        have ext: "\<forall>i. memo i \<noteq> None \<longrightarrow> ?M i = memo i"
          using r(4) memoNone by auto
        have "calc (nodeMap ns) memo n = Some (?W, ?M) \<and> globalWeight (nodeMap ns) n = Some ?W
              \<and> memo_ok ns ?M \<and> ?M (node_id n) = Some ?W
              \<and> (\<forall>i. memo i \<noteq> None \<longrightarrow> ?M i = memo i)"
          using memo_ok_update [OF dist less.prems(1) r(3) g] g c ext by simp
        then show ?thesis by blast
      qed
    qed
  qed
qed

lemma calc_all_correct:
  fixes depth :: "AllocationNode \<Rightarrow> nat"
  assumes dist: "distinct (map node_id ns)"
      and depth: "\<forall>n \<in> set ns. \<forall>pn \<in> set ns.
                    parent_id n = Some (node_id pn) \<longrightarrow> depth pn < depth n"
      and "set rest \<subseteq> set ns" and "memo_ok ns memo"
  shows "\<exists>m. calc_all (nodeMap ns) memo rest = Some m \<and> memo_ok ns m
           \<and> (\<forall>n \<in> set rest. m (node_id n) \<noteq> None)
           \<and> (\<forall>i. memo i \<noteq> None \<longrightarrow> m i = memo i)"
  using assms(3,4)
proof (induction rest arbitrary: memo)
  case Nil
  then show ?case by simp
next
  case (Cons a rest)
  then have a: "a \<in> set ns" and rest: "set rest \<subseteq> set ns" by auto
  from calc_correct [OF dist depth a Cons.prems(2)]
  obtain w memo' where r: "calc (nodeMap ns) memo a = Some (w, memo')" "memo_ok ns memo'"
      "memo' (node_id a) = Some w" "\<forall>i. memo i \<noteq> None \<longrightarrow> memo' i = memo i"
    by blast
  from Cons.IH [OF rest r(2)]
  obtain m where m: "calc_all (nodeMap ns) memo' rest = Some m" "memo_ok ns m"
      "\<forall>n \<in> set rest. m (node_id n) \<noteq> None" "\<forall>i. memo' i \<noteq> None \<longrightarrow> m i = memo' i"
    by blast
  have "calc_all (nodeMap ns) memo (a # rest) = Some m"
    using r(1) m(1) by simp
  moreover have "m (node_id a) \<noteq> None" using r(3) m(4) by auto
  moreover have "\<forall>i. memo i \<noteq> None \<longrightarrow> m i = memo i" using r(4) m(4) by auto
  ultimately show ?case using m(2,3) by auto
qed

text \<open>
  C2. The nodes have distinct ids and form a tree: some measure \<open>depth\<close> is smaller for a
  parent than for its child. Then \<^const>\<open>nodeGlobalWeightMap\<close> returns a map, and for every
  node: the entry of a root is its own target weight; the entry of a node whose parent id
  names no node is 0; the entry of any other node is the entry of its parent times its own
  target weight over 100; and the entry is what the same recursion computes without a
  memo.
\<close>

theorem nodeGlobalWeightMap_correct:
  fixes depth :: "AllocationNode \<Rightarrow> nat"
  assumes dist: "distinct (map node_id ns)"
      and depth: "\<forall>n \<in> set ns. \<forall>pn \<in> set ns.
                    parent_id n = Some (node_id pn) \<longrightarrow> depth pn < depth n"
  shows "\<exists>m. nodeGlobalWeightMap ns = Some m
           \<and> (\<forall>n \<in> set ns.
                 m (node_id n) = globalWeight (nodeMap ns) n
                 \<and> (parent_id n = None \<longrightarrow> m (node_id n) = Some (target_weight n))
                 \<and> (\<forall>p. parent_id n = Some p \<and> nodeMap ns p = None \<longrightarrow> m (node_id n) = Some 0)
                 \<and> (\<forall>p pn. parent_id n = Some p \<and> nodeMap ns p = Some pn \<longrightarrow>
                       (\<exists>w. m (node_id pn) = Some w
                            \<and> m (node_id n) = Some ((w * target_weight n) / 100))))"
proof -
  have "memo_ok ns Map.empty" by (simp add: memo_ok_def)
  from calc_all_correct [OF dist depth subset_refl this]
  obtain m where m: "calc_all (nodeMap ns) Map.empty ns = Some m" "memo_ok ns m"
      "\<forall>n \<in> set ns. m (node_id n) \<noteq> None"
    by blast
  have eq: "\<And>n. n \<in> set ns \<Longrightarrow> m (node_id n) = globalWeight (nodeMap ns) n"
    using m(2,3) by (auto simp: memo_ok_def)
  have "\<forall>n \<in> set ns.
                 m (node_id n) = globalWeight (nodeMap ns) n
                 \<and> (parent_id n = None \<longrightarrow> m (node_id n) = Some (target_weight n))
                 \<and> (\<forall>p. parent_id n = Some p \<and> nodeMap ns p = None \<longrightarrow> m (node_id n) = Some 0)
                 \<and> (\<forall>p pn. parent_id n = Some p \<and> nodeMap ns p = Some pn \<longrightarrow>
                       (\<exists>w. m (node_id pn) = Some w
                            \<and> m (node_id n) = Some ((w * target_weight n) / 100)))"
  proof (intro ballI conjI allI impI)
    fix n assume n: "n \<in> set ns"
    show "m (node_id n) = globalWeight (nodeMap ns) n" by (rule eq [OF n])
    { assume "parent_id n = None"
      then show "m (node_id n) = Some (target_weight n)"
        using eq [OF n] globalWeight_root [of n "nodeMap ns"] by simp }
    { fix p assume "parent_id n = Some p \<and> nodeMap ns p = None"
      then show "m (node_id n) = Some 0"
        using eq [OF n] globalWeight_orphan [of n p "nodeMap ns"] by simp }
    { fix p pn assume a: "parent_id n = Some p \<and> nodeMap ns p = Some pn"
      then have pn: "pn \<in> set ns" using nodeMap_SomeD by blast
      from m(3) pn obtain w where w: "m (node_id pn) = Some w" by auto
      then have "globalWeight (nodeMap ns) pn = Some w" using eq [OF pn] by simp
      with globalWeight_child [of n p "nodeMap ns" pn w] a
      have "globalWeight (nodeMap ns) n = Some ((w * target_weight n) / 100)" by blast
      then show "\<exists>w. m (node_id pn) = Some w
                            \<and> m (node_id n) = Some ((w * target_weight n) / 100)"
        using w eq [OF n] by simp }
  qed
  then show ?thesis unfolding nodeGlobalWeightMap_def using m(1) by blast
qed


theorem nodeGlobalWeightMap_correct_witness:
  "\<exists>m. nodeGlobalWeightMap [node_cn, node_equity, node_us, node_lost] = Some m
      \<and> m 1 = Some 80 \<and> m 2 = Some 48 \<and> m 3 = Some 32 \<and> m 4 = Some 0"
proof -
  let ?tree = "[node_cn, node_equity, node_us, node_lost]"
  note defs = node_equity_def node_cn_def node_us_def node_lost_def
  have d: "distinct (map node_id ?tree)" by (simp add: defs)
  have t: "\<forall>n \<in> set ?tree. \<forall>pn \<in> set ?tree.
             parent_id n = Some (node_id pn) \<longrightarrow> node_id pn < node_id n"
    by (simp add: defs)
  have nm1: "nodeMap ?tree 1 = Some node_equity" and nm9: "nodeMap ?tree 9 = None"
    by (simp_all add: nodeMap_def defs)
  from nodeGlobalWeightMap_correct [OF d t]
  obtain m where m: "nodeGlobalWeightMap ?tree = Some m"
    and all: "\<forall>n \<in> set ?tree.
                 m (node_id n) = globalWeight (nodeMap ?tree) n
                 \<and> (parent_id n = None \<longrightarrow> m (node_id n) = Some (target_weight n))
                 \<and> (\<forall>p. parent_id n = Some p \<and> nodeMap ?tree p = None \<longrightarrow> m (node_id n) = Some 0)
                 \<and> (\<forall>p pn. parent_id n = Some p \<and> nodeMap ?tree p = Some pn \<longrightarrow>
                       (\<exists>w. m (node_id pn) = Some w
                            \<and> m (node_id n) = Some ((w * target_weight n) / 100)))"
    by blast
  have in1: "node_equity \<in> set ?tree" and in2: "node_cn \<in> set ?tree"
    and in3: "node_us \<in> set ?tree" and in4: "node_lost \<in> set ?tree"
    by simp_all
  have par1: "parent_id node_equity = None" and par2: "parent_id node_cn = Some 1"
    and par3: "parent_id node_us = Some 1" and par4: "parent_id node_lost = Some 9"
    by (simp_all add: defs)
  from bspec [OF all in1] par1
  have "m (node_id node_equity) = Some (target_weight node_equity)" by blast
  then have r1: "m 1 = Some 80" by (simp add: defs)
  from bspec [OF all in2] par2 nm1
  obtain w2 where "m (node_id node_equity) = Some w2"
      "m (node_id node_cn) = Some ((w2 * target_weight node_cn) / 100)"
    by blast
  with r1 have r2: "m 2 = Some 48" by (simp add: defs)
  from bspec [OF all in3] par3 nm1
  obtain w3 where "m (node_id node_equity) = Some w3"
      "m (node_id node_us) = Some ((w3 * target_weight node_us) / 100)"
    by blast
  with r1 have r3: "m 3 = Some 32" by (simp add: defs)
  from bspec [OF all in4] par4 nm9 have "m (node_id node_lost) = Some 0" by blast
  then have r4: "m 4 = Some 0" by (simp add: defs)
  show ?thesis using m r1 r2 r3 r4 by blast
qed

section \<open>Properties: the amount of a trade\<close>





section \<open>Properties: deleting a transaction\<close>

lemma find_by_id:
  assumes "distinct (map tx_id ledger)" and "t \<in> set ledger"
  shows "find (\<lambda>u. tx_id u = tx_id t) ledger = Some t"
  using assms
proof (induction ledger)
  case Nil
  then show ?case by simp
next
  case (Cons a ledger)
  then show ?case by (cases "a = t") (auto simp: image_iff)
qed

lemma same_id_same_row:
  assumes "distinct (map tx_id ledger)" and "t \<in> set ledger" and "u \<in> set ledger"
  shows "(tx_id u = tx_id t) = (u = t)"
  using assms by (meson distinct_map inj_onD)

lemma filter_by_id:
  assumes "distinct (map tx_id ledger)" and "t \<in> set ledger"
  shows "filter (\<lambda>u. tx_id u \<noteq> tx_id t) ledger = filter (\<lambda>u. u \<noteq> t) ledger"
    and "length (filter (\<lambda>u. tx_id u = tx_id t) ledger) = 1"
proof -
  show "filter (\<lambda>u. tx_id u \<noteq> tx_id t) ledger = filter (\<lambda>u. u \<noteq> t) ledger"
    using same_id_same_row [OF assms] by (intro filter_cong) auto
  have "filter (\<lambda>u. tx_id u = tx_id t) ledger = filter (\<lambda>u. u = t) ledger"
    using same_id_same_row [OF assms] by (intro filter_cong) auto
  moreover have "distinct ledger"
    using assms(1) by (simp add: distinct_map)
  ultimately show "length (filter (\<lambda>u. tx_id u = tx_id t) ledger) = 1"
    using assms(2) by (simp add: distinct_length_filter)
qed


text \<open>
  C4. The rows of the ledger have distinct ids, \<open>t\<close> is one of them and the page shows
  the ledger. When \<open>t\<close> carries a transfer group, and the group has its two rows, the
  delete answers a count of 2 and the ledger that remains is the old one without the
  rows of the group. When \<open>t\<close> carries no group, the count is 1 and the ledger that
  remains is the old one without \<open>t\<close>, one row shorter. In both cases what remains is
  a selection of the old rows, in order: no row is rewritten.
\<close>

theorem delete_transfer_pair:
  assumes "distinct (map tx_id ledger)" and "t \<in> set ledger" and "txs page = ledger"
  shows "(\<forall>g. transfer_group_id t = Some g
              \<and> length (filter (\<lambda>u. transfer_group_id u = Some g) ledger) = 2 \<longrightarrow>
            ledger_delete ledger (tx_id t)
              = Inr (filter (\<lambda>u. transfer_group_id u \<noteq> Some g) ledger, 2)
            \<and> fst (onDelete t (ledger, page)) = filter (\<lambda>u. transfer_group_id u \<noteq> Some g) ledger
            \<and> txs (snd (onDelete t (ledger, page))) = fst (onDelete t (ledger, page)))
       \<and> (transfer_group_id t = None \<longrightarrow>
            ledger_delete ledger (tx_id t) = Inr (filter (\<lambda>u. u \<noteq> t) ledger, 1)
            \<and> fst (onDelete t (ledger, page)) = filter (\<lambda>u. u \<noteq> t) ledger
            \<and> txs (snd (onDelete t (ledger, page))) = fst (onDelete t (ledger, page))
            \<and> length (fst (onDelete t (ledger, page))) + 1 = length ledger)"
proof -
  note f = find_by_id [OF assms(1,2)]
  have pair: "\<And>g. transfer_group_id t = Some g \<Longrightarrow>
      length (filter (\<lambda>u. transfer_group_id u = Some g) ledger) = 2 \<Longrightarrow>
      ledger_delete ledger (tx_id t) = Inr (filter (\<lambda>u. transfer_group_id u \<noteq> Some g) ledger, 2)"
    using f by (simp add: ledger_delete_def)
  have single: "transfer_group_id t = None \<Longrightarrow>
      ledger_delete ledger (tx_id t) = Inr (filter (\<lambda>u. u \<noteq> t) ledger, 1)"
    using f filter_by_id [OF assms(1,2)] by (simp add: ledger_delete_def)
  have len: "length (filter (\<lambda>u. u \<noteq> t) ledger) + 1 = length ledger"
  proof -
    have "length (filter (\<lambda>u. u \<noteq> t) ledger) + length (filter (\<lambda>u. \<not> u \<noteq> t) ledger) = length ledger"
      by (rule sum_length_filter_compl)
    moreover have "length (filter (\<lambda>u. \<not> u \<noteq> t) ledger) = 1"
      using assms(1,2) by (simp add: distinct_map distinct_length_filter)
    ultimately show ?thesis by simp
  qed
  show ?thesis
    using pair single len by (auto simp: onDelete_def)
qed


theorem delete_transfer_pair_witness:
  "ledger_delete [row_cash_in, row_buy, leg_out, leg_in] 3 = Inr ([row_cash_in, row_buy], 2)
   \<and> ledger_delete [row_cash_in, row_buy, leg_out, leg_in] 1 = Inr ([row_buy, leg_out, leg_in], 1)"
proof -
  let ?ledger = "[row_cash_in, row_buy, leg_out, leg_in]"
  note defs = row_cash_in_def row_buy_def leg_out_def leg_in_def
  have d: "distinct (map tx_id ?ledger)" by (simp add: defs)
  have p: "txs ledger_page = ?ledger" by (simp add: ledger_page_def)
  have i1: "leg_out \<in> set ?ledger" and i2: "row_cash_in \<in> set ?ledger" by simp_all
  have g: "transfer_group_id leg_out = Some ''g-1''
           \<and> length (filter (\<lambda>u. transfer_group_id u = Some ''g-1'') ?ledger) = 2"
    by (simp add: defs)
  from delete_transfer_pair [OF d i1 p] g
  have "ledger_delete ?ledger (tx_id leg_out)
          = Inr (filter (\<lambda>u. transfer_group_id u \<noteq> Some ''g-1'') ?ledger, 2)"
    by blast
  moreover have "tx_id leg_out = 3"
    and "filter (\<lambda>u. transfer_group_id u \<noteq> Some ''g-1'') ?ledger = [row_cash_in, row_buy]"
    by (simp_all add: defs)
  ultimately have a: "ledger_delete ?ledger 3 = Inr ([row_cash_in, row_buy], 2)" by simp
  have n: "transfer_group_id row_cash_in = None" by (simp add: defs)
  from delete_transfer_pair [OF d i2 p] n
  have "ledger_delete ?ledger (tx_id row_cash_in)
          = Inr (filter (\<lambda>u. u \<noteq> row_cash_in) ?ledger, 1)"
    by blast
  moreover have "tx_id row_cash_in = 1"
    and "filter (\<lambda>u. u \<noteq> row_cash_in) ?ledger = [row_buy, leg_out, leg_in]"
    by (simp_all add: defs)
  ultimately have b: "ledger_delete ?ledger 1 = Inr ([row_buy, leg_out, leg_in], 1)" by simp
  show ?thesis using a b by blast
qed

section \<open>Properties: the rows of a transfer\<close>

text \<open>
  C5. A row is a transfer row when its \<^verbatim>\<open>transfer_group_id\<close> is set (not \<^verbatim>\<open>null\<close>, not
  empty). For a transfer row the edit button, the reversal and its confirmation are
  disabled: a click on edit leaves the page as it is and a click on reverse sends
  nothing; the delete button stays enabled. For any other row edit and reverse are
  enabled: a click on edit opens the form on the row and a confirmed reverse sends
  \<^verbatim>\<open>POST /transactions/{id}/reverse\<close>.
\<close>

theorem transfer_rows_immutable:
  "(isTransferRow tx \<longleftrightarrow> (\<exists>g. transfer_group_id tx = Some g \<and> g \<noteq> []))
   \<and> (isTransferRow tx \<longrightarrow>
         edit_disabled (actions_column tx) \<and> reverse_disabled (actions_column tx)
         \<and> reverse_confirm_disabled (actions_column tx)
         \<and> click_edit now tx page = page \<and> click_reverse tx = None
         \<and> \<not> delete_disabled (actions_column tx))
   \<and> (\<not> isTransferRow tx \<longrightarrow>
         \<not> edit_disabled (actions_column tx) \<and> \<not> reverse_disabled (actions_column tx)
         \<and> \<not> reverse_confirm_disabled (actions_column tx)
         \<and> editingTx (click_edit now tx page) = Some tx
         \<and> click_reverse tx = Some (POST_reverse (tx_id tx)))"
  by (auto simp: isTransferRow_def actions_column_def click_edit_def click_reverse_def
      openEditModal_def onReverse_def split: option.splits)

theorem transfer_rows_immutable_witness:
  "click_reverse leg_out = None \<and> click_edit 0 leg_out ledger_page = ledger_page
   \<and> click_reverse row_cash_in = Some (POST_reverse 1)
   \<and> editingTx (click_edit 0 row_cash_in ledger_page) = Some row_cash_in"
proof -
  have a: "isTransferRow leg_out" by (simp add: isTransferRow_def leg_out_def)
  have b: "\<not> isTransferRow row_cash_in" by (simp add: isTransferRow_def row_cash_in_def)
  from a transfer_rows_immutable [of leg_out 0 ledger_page]
  have l: "click_reverse leg_out = None \<and> click_edit 0 leg_out ledger_page = ledger_page" by blast
  from b transfer_rows_immutable [of row_cash_in 0 ledger_page]
  have c: "click_reverse row_cash_in = Some (POST_reverse (tx_id row_cash_in))
           \<and> editingTx (click_edit 0 row_cash_in ledger_page) = Some row_cash_in"
    by blast
  moreover have "tx_id row_cash_in = 1" by (simp add: row_cash_in_def)
  ultimately show ?thesis using l by simp
qed

section \<open>Properties: leaves and bindings\<close>

lemma set_parentSet: "set (List.map_filter parent_id ns) = {p. \<exists>m \<in> set ns. parent_id m = Some p}"
  by (induction ns) (auto simp: List.map_filter_simps split: option.splits)

lemma leafNodes_iff:
  "n \<in> set (leafNodes ns) \<longleftrightarrow> n \<in> set ns \<and> (\<forall>m \<in> set ns. parent_id m \<noteq> Some (node_id n))"
  unfolding leafNodes_def Let_def set_parentSet by auto

lemma hasChildren_iff:
  assumes "selectedNode st = Some n"
  shows "selectedNodeHasChildren collate st \<longleftrightarrow> (\<exists>m \<in> set (nodes st). parent_id m = Some (node_id n))"
  using assms
  by (auto simp: selectedNodeHasChildren_def childrenMap_def Let_def length_sort_by filter_empty_conv)

lemma selectedNode_member:
  assumes "selectedNode st = Some n"
  shows "n \<in> set (nodes st)"
  using assms nodeMap_SomeD
  by (auto simp: selectedNode_def split: option.splits if_splits)


text \<open>
  C6. The nodes have distinct ids, none is its own parent, and the page shows them. A
  node is among \<^const>\<open>leafNodes\<close> exactly when no other node has it as parent. With a
  selected node that is not a leaf, binding is refused before anything is sent, whatever
  the server: the server is unchanged and the page asks for a leaf. With a selected leaf
  and a chosen instrument, one request names the instrument and the leaf, and the page
  shows the instruments the server answers with. The server of the specification, for an
  instrument that exists, answers with the table in which the instrument's single
  \<^verbatim>\<open>allocation_node_id\<close> is the leaf, whatever it was before, with the same instruments
  in the same order (no second binding is added).
\<close>

theorem leaf_binding:
  assumes "distinct (map node_id ns)"
      and "\<forall>m \<in> set ns. parent_id m \<noteq> Some (node_id m)"
      and "nodes st = ns"
  shows "(\<forall>n \<in> set ns. n \<in> set (leafNodes ns)
            \<longleftrightarrow> (\<forall>m \<in> set ns. m \<noteq> n \<longrightarrow> parent_id m \<noteq> Some (node_id n)))
       \<and> (\<forall>n. selectedNode st = Some n \<and> n \<notin> set (leafNodes ns) \<longrightarrow>
             fst (bindInstrumentToNode patch collate ((ns, insts), st)) = (ns, insts)
             \<and> shown (snd (bindInstrumentToNode patch collate ((ns, insts), st)))
                 = Some ChooseLeafAndInstrument)
       \<and> (\<forall>n iid. selectedNode st = Some n \<and> n \<in> set (leafNodes ns)
                  \<and> leafInstrumentDraftId st = Some iid \<longrightarrow>
             (case patch ns insts iid (node_id n) of
                Inr insts' \<Rightarrow>
                  fst (bindInstrumentToNode patch collate ((ns, insts), st)) = (ns, insts')
                  \<and> instruments (snd (bindInstrumentToNode patch collate ((ns, insts), st))) = insts'
              | Inl e \<Rightarrow>
                  fst (bindInstrumentToNode patch collate ((ns, insts), st)) = (ns, insts)
                  \<and> shown (snd (bindInstrumentToNode patch collate ((ns, insts), st)))
                      = Some RequestFailed))
       \<and> (\<forall>n iid. selectedNode st = Some n \<and> n \<in> set (leafNodes ns)
                  \<and> leafInstrumentDraftId st = Some iid \<and> iid \<in> inst_id ` set insts \<longrightarrow>
             fst (bindInstrumentToNode patch_instrument_allocation collate ((ns, insts), st))
               = (ns, map (\<lambda>i. if inst_id i = iid then i\<lparr>allocation_node_id := Some (node_id n)\<rparr> else i) insts)
             \<and> map inst_id (snd (fst (bindInstrumentToNode patch_instrument_allocation collate ((ns, insts), st))))
                 = map inst_id insts
             \<and> (\<forall>i \<in> set (snd (fst (bindInstrumentToNode patch_instrument_allocation collate ((ns, insts), st)))).
                   inst_id i = iid \<longrightarrow> allocation_node_id i = Some (node_id n)))"
proof -
  have leaf: "\<forall>n \<in> set ns. n \<in> set (leafNodes ns)
            \<longleftrightarrow> (\<forall>m \<in> set ns. m \<noteq> n \<longrightarrow> parent_id m \<noteq> Some (node_id n))"
    using assms(2) unfolding leafNodes_iff by auto
  have rej: "\<forall>n. selectedNode st = Some n \<and> n \<notin> set (leafNodes ns) \<longrightarrow>
             fst (bindInstrumentToNode patch collate ((ns, insts), st)) = (ns, insts)
             \<and> shown (snd (bindInstrumentToNode patch collate ((ns, insts), st)))
                 = Some ChooseLeafAndInstrument"
  proof (intro allI impI, elim conjE)
    fix n assume s: "selectedNode st = Some n" and nl: "n \<notin> set (leafNodes ns)"
    have "n \<in> set ns" using selectedNode_member [OF s] assms(3) by simp
    with nl have "\<exists>m \<in> set ns. parent_id m = Some (node_id n)"
      unfolding leafNodes_iff by auto
    then have "selectedNodeHasChildren collate st"
      using hasChildren_iff [OF s] assms(3) by simp
    then show "fst (bindInstrumentToNode patch collate ((ns, insts), st)) = (ns, insts)
             \<and> shown (snd (bindInstrumentToNode patch collate ((ns, insts), st)))
                 = Some ChooseLeafAndInstrument"
      using s
      by (auto simp: bindInstrumentToNode_def selectedNodeCanBindInstruments_def Let_def
          split: option.splits)
  qed
  have sent: "\<And>p n iid. selectedNode st = Some n \<Longrightarrow> n \<in> set (leafNodes ns) \<Longrightarrow>
                  leafInstrumentDraftId st = Some iid \<Longrightarrow>
             (case p ns insts iid (node_id n) of
                Inr insts' \<Rightarrow>
                  fst (bindInstrumentToNode p collate ((ns, insts), st)) = (ns, insts')
                  \<and> instruments (snd (bindInstrumentToNode p collate ((ns, insts), st))) = insts'
              | Inl e \<Rightarrow>
                  fst (bindInstrumentToNode p collate ((ns, insts), st)) = (ns, insts)
                  \<and> shown (snd (bindInstrumentToNode p collate ((ns, insts), st)))
                      = Some RequestFailed)"
  proof -
    fix p n iid
    assume s: "selectedNode st = Some n" and l: "n \<in> set (leafNodes ns)"
       and dr: "leafInstrumentDraftId st = Some iid"
    from l have nochild: "\<forall>m \<in> set ns. parent_id m \<noteq> Some (node_id n)"
      unfolding leafNodes_iff by auto
    then have nh: "\<not> selectedNodeHasChildren collate st"
      using hasChildren_iff [OF s] assms(3) by simp
    show "(case p ns insts iid (node_id n) of
                Inr insts' \<Rightarrow>
                  fst (bindInstrumentToNode p collate ((ns, insts), st)) = (ns, insts')
                  \<and> instruments (snd (bindInstrumentToNode p collate ((ns, insts), st))) = insts'
              | Inl e \<Rightarrow>
                  fst (bindInstrumentToNode p collate ((ns, insts), st)) = (ns, insts)
                  \<and> shown (snd (bindInstrumentToNode p collate ((ns, insts), st)))
                      = Some RequestFailed)"
      using s dr nh
      by (simp add: bindInstrumentToNode_def selectedNodeCanBindInstruments_def Let_def
          split: sum.splits)
  qed
  have ids: "\<And>iid nid. map inst_id (map (\<lambda>i. if inst_id i = iid then i\<lparr>allocation_node_id := Some nid\<rparr> else i) insts)
       = map inst_id insts"
    by (induction insts) auto
  have one: "\<And>iid nid. \<forall>i \<in> set (map (\<lambda>i. if inst_id i = iid then i\<lparr>allocation_node_id := Some nid\<rparr> else i) insts).
       inst_id i = iid \<longrightarrow> allocation_node_id i = Some nid"
    by auto
  have acc: "\<forall>n iid. selectedNode st = Some n \<and> n \<in> set (leafNodes ns)
                  \<and> leafInstrumentDraftId st = Some iid \<and> iid \<in> inst_id ` set insts \<longrightarrow>
             fst (bindInstrumentToNode patch_instrument_allocation collate ((ns, insts), st))
               = (ns, map (\<lambda>i. if inst_id i = iid then i\<lparr>allocation_node_id := Some (node_id n)\<rparr> else i) insts)
             \<and> map inst_id (snd (fst (bindInstrumentToNode patch_instrument_allocation collate ((ns, insts), st))))
                 = map inst_id insts
             \<and> (\<forall>i \<in> set (snd (fst (bindInstrumentToNode patch_instrument_allocation collate ((ns, insts), st)))).
                   inst_id i = iid \<longrightarrow> allocation_node_id i = Some (node_id n))"
  proof (intro allI impI, elim conjE)
    fix n iid
    assume s: "selectedNode st = Some n" and l: "n \<in> set (leafNodes ns)"
       and dr: "leafInstrumentDraftId st = Some iid" and ex: "iid \<in> inst_id ` set insts"
    have mem: "n \<in> set ns" using selectedNode_member [OF s] assms(3) by simp
    from l have nochild: "\<forall>m \<in> set ns. parent_id m \<noteq> Some (node_id n)"
      unfolding leafNodes_iff by auto
    have p: "patch_instrument_allocation ns insts iid (node_id n)
        = Inr (map (\<lambda>i. if inst_id i = iid then i\<lparr>allocation_node_id := Some (node_id n)\<rparr> else i) insts)"
      using mem nochild ex
      by (auto simp: patch_instrument_allocation_def list_ex_iff)
    have f: "fst (bindInstrumentToNode patch_instrument_allocation collate ((ns, insts), st))
               = (ns, map (\<lambda>i. if inst_id i = iid then i\<lparr>allocation_node_id := Some (node_id n)\<rparr> else i) insts)"
      using sent [OF s l dr, of patch_instrument_allocation] by (simp add: p)
    show "fst (bindInstrumentToNode patch_instrument_allocation collate ((ns, insts), st))
               = (ns, map (\<lambda>i. if inst_id i = iid then i\<lparr>allocation_node_id := Some (node_id n)\<rparr> else i) insts)
             \<and> map inst_id (snd (fst (bindInstrumentToNode patch_instrument_allocation collate ((ns, insts), st))))
                 = map inst_id insts
             \<and> (\<forall>i \<in> set (snd (fst (bindInstrumentToNode patch_instrument_allocation collate ((ns, insts), st)))).
                   inst_id i = iid \<longrightarrow> allocation_node_id i = Some (node_id n))"
      unfolding f snd_conv by (intro conjI refl ids one)
  qed
  have snt: "\<forall>n iid. selectedNode st = Some n \<and> n \<in> set (leafNodes ns)
                  \<and> leafInstrumentDraftId st = Some iid \<longrightarrow>
             (case patch ns insts iid (node_id n) of
                Inr insts' \<Rightarrow>
                  fst (bindInstrumentToNode patch collate ((ns, insts), st)) = (ns, insts')
                  \<and> instruments (snd (bindInstrumentToNode patch collate ((ns, insts), st))) = insts'
              | Inl e \<Rightarrow>
                  fst (bindInstrumentToNode patch collate ((ns, insts), st)) = (ns, insts)
                  \<and> shown (snd (bindInstrumentToNode patch collate ((ns, insts), st)))
                      = Some RequestFailed)"
  proof (intro allI impI, elim conjE)
    fix n iid
    assume s: "selectedNode st = Some n" and l: "n \<in> set (leafNodes ns)"
       and dr: "leafInstrumentDraftId st = Some iid"
    show "(case patch ns insts iid (node_id n) of
                Inr insts' \<Rightarrow>
                  fst (bindInstrumentToNode patch collate ((ns, insts), st)) = (ns, insts')
                  \<and> instruments (snd (bindInstrumentToNode patch collate ((ns, insts), st))) = insts'
              | Inl e \<Rightarrow>
                  fst (bindInstrumentToNode patch collate ((ns, insts), st)) = (ns, insts)
                  \<and> shown (snd (bindInstrumentToNode patch collate ((ns, insts), st)))
                      = Some RequestFailed)"
      by (rule sent [OF s l dr])
  qed
  show ?thesis
    by (rule conjI [OF leaf conjI [OF rej conjI [OF snt acc]]])
qed


theorem leaf_binding_witness:
  "fst (bindInstrumentToNode patch_instrument_allocation (\<lambda>a b. 0)
          (([node_equity, node_cn, node_us], [moutai None]), allocation_page Map.empty 1))
     = ([node_equity, node_cn, node_us], [moutai None])
   \<and> fst (bindInstrumentToNode patch_instrument_allocation (\<lambda>a b. 0)
          (([node_equity, node_cn, node_us], [moutai None]), allocation_page Map.empty 2))
     = ([node_equity, node_cn, node_us], [moutai (Some 2)])
   \<and> fst (bindInstrumentToNode patch_instrument_allocation (\<lambda>a b. 0)
          (([node_equity, node_cn, node_us], [moutai (Some 2)]), allocation_page Map.empty 3))
     = ([node_equity, node_cn, node_us], [moutai (Some 3)])"
proof -
  let ?ns = "[node_equity, node_cn, node_us]"
  let ?page = "allocation_page Map.empty"
  let ?bind = "bindInstrumentToNode patch_instrument_allocation (\<lambda>a b. 0)"
  note defs = node_equity_def node_cn_def node_us_def
  have d: "distinct (map node_id ?ns)" by (simp add: defs)
  have t: "\<forall>m \<in> set ?ns. parent_id m \<noteq> Some (node_id m)" by (simp add: defs)
  have p: "\<And>sel. nodes (?page sel) = ?ns" by (simp add: allocation_page_def)
  have leaves: "node_equity \<notin> set (leafNodes ?ns)" "node_cn \<in> set (leafNodes ?ns)"
      "node_us \<in> set (leafNodes ?ns)"
    by (simp_all add: leafNodes_def List.map_filter_simps defs)
  have sel: "selectedNode (?page 1) = Some node_equity" "selectedNode (?page 2) = Some node_cn"
      "selectedNode (?page 3) = Some node_us"
    by (simp_all add: selectedNode_def nodeMap_def allocation_page_def defs)
  have dr: "\<And>sel. leafInstrumentDraftId (?page sel) = Some 1"
    by (simp add: allocation_page_def)
  have ex: "\<And>b. 1 \<in> inst_id ` set [moutai b]" by (simp add: moutai_def)
  have upd: "\<And>b n. map (\<lambda>i. if inst_id i = 1 then i\<lparr>allocation_node_id := Some n\<rparr> else i)
                     [moutai b] = [moutai (Some n)]"
    by (simp add: moutai_def)
  have ids: "node_id node_cn = 2" "node_id node_us = 3" by (simp_all add: defs)
  note L = leaf_binding [OF d t p, where collate = "\<lambda>a b. 0" and patch = patch_instrument_allocation]
  note refuse = L [THEN conjunct2, THEN conjunct1, rule_format]
  note accept = L [THEN conjunct2, THEN conjunct2, THEN conjunct2, rule_format, THEN conjunct1]
  have a: "fst (?bind ((?ns, [moutai None]), ?page 1)) = (?ns, [moutai None])"
    using refuse [of 1 node_equity "[moutai None]"] sel(1) leaves(1) by simp
  have "fst (?bind ((?ns, [moutai None]), ?page 2))
           = (?ns, map (\<lambda>i. if inst_id i = 1 then i\<lparr>allocation_node_id := Some (node_id node_cn)\<rparr> else i)
                     [moutai None])"
    using accept [of 2 node_cn 1 "[moutai None]"] sel(2) leaves(2) dr ex by simp
  then have b: "fst (?bind ((?ns, [moutai None]), ?page 2)) = (?ns, [moutai (Some 2)])"
    by (simp only: upd ids)
  have "fst (?bind ((?ns, [moutai (Some 2)]), ?page 3))
           = (?ns, map (\<lambda>i. if inst_id i = 1 then i\<lparr>allocation_node_id := Some (node_id node_us)\<rparr> else i)
                     [moutai (Some 2)])"
    using accept [of 3 node_us 1 "[moutai (Some 2)]"] sel(3) leaves(3) dr ex by simp
  then have c: "fst (?bind ((?ns, [moutai (Some 2)]), ?page 3)) = (?ns, [moutai (Some 3)])"
    by (simp only: upd ids)
  show ?thesis using a b c by simp
qed

section \<open>Properties: the return rate\<close>

lemma curve_series_shown:
  "curve_series curve
   = map (\<lambda>p. (point_date p, the (total_return_rate p)))
       (filter (\<lambda>p. total_return_rate p \<noteq> None) curve)"
  by (induction curve) (auto simp: curve_series_def List.map_filter_simps split: option.splits)

text \<open>
  C7. Whatever curve the server sends, the series of the chart is made of the points
  whose rate is not \<^verbatim>\<open>null\<close>, each with its rate: a point with a \<^verbatim>\<open>null\<close> rate is left
  out, not drawn at 0. The rate of the dashboard is the rate of the last point,
  \<^verbatim>\<open>null\<close> when that is \<^verbatim>\<open>null\<close> or there is no point, and a \<^verbatim>\<open>null\<close> rate is shown as
  a dash. The point the server makes of a day (its date, net contribution and total
  assets) has total_return = total_assets - net_contribution, and its rate is
  total_return / net_contribution when the net contribution is positive and \<^verbatim>\<open>null\<close>
  otherwise; so a day without a positive net contribution gives no point on the chart
  and a dash on the dashboard.
\<close>

theorem returns_curve_rate_null:
  "(let shownPoints = filter (\<lambda>p. total_return_rate p \<noteq> None) curve;
        d = derived_of (Some ta) curve drifts
    in curve_series curve = map (\<lambda>p. (point_date p, the (total_return_rate p))) shownPoints
     \<and> (\<forall>opt. buildCurveOption fmt curve = Some opt \<longrightarrow>
           series_data opt = map (\<lambda>p. toFixedNumber 6 (the (total_return_rate p))) shownPoints)
     \<and> totalReturnRate d = (if curve = [] then None else total_return_rate (last curve))
     \<and> kpi_totalReturnRate d = (case totalReturnRate d of None \<Rightarrow> Dash | Some r \<Rightarrow> Percent r))
   \<and> (let p = returns_point day nc assets
      in total_return p = total_assets p - net_contribution p
       \<and> total_return_rate p
           = (if net_contribution p > 0 then Some (total_return p / net_contribution p) else None)
       \<and> (net_contribution p \<le> 0 \<longrightarrow>
             curve_series [p] = []
             \<and> kpi_totalReturnRate (derived_of (Some ta) [p] drifts) = Dash))"
proof -
  let ?shown = "filter (\<lambda>p. total_return_rate p \<noteq> None) curve"
  let ?d = "derived_of (Some ta) curve drifts"
  let ?p = "returns_point day nc assets"
  have series: "curve_series curve = map (\<lambda>p. (point_date p, the (total_return_rate p))) ?shown"
    by (rule curve_series_shown)
  have opt: "\<forall>opt. buildCurveOption fmt curve = Some opt \<longrightarrow>
           series_data opt = map (\<lambda>p. toFixedNumber 6 (the (total_return_rate p))) ?shown"
    unfolding buildCurveOption_def series
    by (auto simp: Let_def comp_def split: if_splits)
  have rate: "totalReturnRate ?d = (if curve = [] then None else total_return_rate (last curve))"
    by (simp add: derived_of_def Let_def)
  have kpi: "kpi_totalReturnRate ?d = (case totalReturnRate ?d of None \<Rightarrow> Dash | Some r \<Rightarrow> Percent r)"
    by (simp add: kpi_totalReturnRate_def formatPercentOrDash_def)
  have point: "total_return ?p = total_assets ?p - net_contribution ?p"
      "total_return_rate ?p
           = (if net_contribution ?p > 0 then Some (total_return ?p / net_contribution ?p) else None)"
    by (simp_all add: returns_point_def)
  have null: "net_contribution ?p \<le> 0 \<longrightarrow>
             curve_series [?p] = []
             \<and> kpi_totalReturnRate (derived_of (Some ta) [?p] drifts) = Dash"
    by (simp add: returns_point_def curve_series_def List.map_filter_simps derived_of_def
        kpi_totalReturnRate_def formatPercentOrDash_def Let_def)
  show ?thesis
    unfolding Let_def
    by (rule conjI [OF conjI [OF series conjI [OF opt conjI [OF rate kpi]]]
          conjI [OF point(1) conjI [OF point(2) null]]])
qed

theorem returns_curve_rate_null_witness:
  "curve_series [returns_point ''2026-02-06'' 0 0, returns_point ''2026-02-07'' 10000 10100,
                 returns_point ''2026-02-08'' 10000 10250]
     = [(''2026-02-07'', 1 / 100), (''2026-02-08'', 1 / 40)]
   \<and> kpi_totalReturnRate (derived_of (Some 0) [returns_point ''2026-02-06'' 0 0] []) = Dash"
proof -
  let ?curve = "[returns_point ''2026-02-06'' 0 0, returns_point ''2026-02-07'' 10000 10100,
                 returns_point ''2026-02-08'' 10000 10250]"
  note R = returns_curve_rate_null [of ?curve 0 "[]" "\<lambda>s. s" "''2026-02-06''" 0 0,
               unfolded Let_def]
  have e: "map (\<lambda>p. (point_date p, the (total_return_rate p)))
             (filter (\<lambda>p. total_return_rate p \<noteq> None) ?curve)
           = [(''2026-02-07'', 1 / 100), (''2026-02-08'', 1 / 40)]"
    by (simp add: returns_point_def del: not_None_eq)
  have a: "curve_series ?curve = [(''2026-02-07'', 1 / 100), (''2026-02-08'', 1 / 40)]"
    using R [THEN conjunct1, THEN conjunct1] e by (rule trans)
  have n: "net_contribution (returns_point ''2026-02-06'' 0 0) \<le> 0"
    by (simp add: returns_point_def)
  have b: "kpi_totalReturnRate (derived_of (Some 0) [returns_point ''2026-02-06'' 0 0] []) = Dash"
    using R [THEN conjunct2, THEN conjunct2, THEN conjunct2, rule_format, OF n] by (rule conjunct2)
  show ?thesis using a b by (rule conjI)
qed

section \<open>Properties: the cash effect of a trade\<close>

text \<open>
  C8. For a BUY or a SELL with a positive amount, the settlement the form previews is
  amount - fee - tax for a SELL and amount + fee + tax for a BUY, and appending the
  trade to a ledger moves the cash balance of its account up by the former, or down by
  the latter. A cash-in of 10000 followed by a buy of 10 units at 100 with a fee of 1
  leaves a balance of 8999 and a holding of 10 units at an average cost of 100.
\<close>

theorem trade_cash_effect:
  assumes "tx_kind t = BUY \<or> tx_kind t = SELL" and "amount t > 0"
  shows "createSettlementPreview (tx_kind t) (Some (amount t)) (Some (fee t)) (Some (tax t))
           = Some (if tx_kind t = SELL then amount t - fee t - tax t
                   else amount t + fee t + tax t)
       \<and> cash_balance (account_id t) (ledger @ [t])
           = cash_balance (account_id t) ledger
             + (if tx_kind t = SELL then amount t - fee t - tax t
                else - (amount t + fee t + tax t))
       \<and> cash_balance 1 [row_cash_in, row_buy] = 8999
       \<and> holding 1 1 [row_cash_in, row_buy] = (10, 100)"
proof -
  have general: "createSettlementPreview (tx_kind t) (Some (amount t)) (Some (fee t)) (Some (tax t))
           = Some (if tx_kind t = SELL then amount t - fee t - tax t
                   else amount t + fee t + tax t)
       \<and> cash_balance (account_id t) (ledger @ [t])
           = cash_balance (account_id t) ledger
             + (if tx_kind t = SELL then amount t - fee t - tax t
                else - (amount t + fee t + tax t))"
    using assms
    by (auto simp: createSettlementPreview_def TRADE_TYPES_def cash_balance_def cash_delta_def
        Let_def)
  have example: "cash_balance 1 [row_cash_in, row_buy] = 8999
       \<and> holding 1 1 [row_cash_in, row_buy] = (10, 100)"
    by (simp add: cash_balance_def cash_delta_def holding_def holding_step_def
        row_cash_in_def row_buy_def)
  show ?thesis using general example by blast
qed

theorem trade_cash_effect_witness:
  "cash_balance 1 ([row_cash_in] @ [row_buy]) = cash_balance 1 [row_cash_in] - 1001
   \<and> createSettlementPreview BUY (Some 1000) (Some 1) (Some 0) = Some 1001"
proof -
  have k: "tx_kind row_buy = BUY \<or> tx_kind row_buy = SELL" by (simp add: row_buy_def)
  have a: "amount row_buy > 0" by (simp add: row_buy_def)
  from trade_cash_effect [OF k a, of "[row_cash_in]"]
  show ?thesis by (simp add: row_buy_def)
qed

section \<open>Properties: the colour of a drift at the threshold\<close>

text \<open>
  C9. The holdings page colours a drift as an alert from 5 on, the bar of the dashboard
  only above 5. At a drift of exactly 5, with a threshold of 5, the item is alerted and
  the cell of the holdings page has the alert colour, while the bar of the dashboard has
  the colour of a drift of 0.
\<close>

theorem drift_boundary_rendering:
  "(\<forall>v. (driftTextColor v = ''#d46b08'') = (\<bar>v\<bar> \<ge> 5))
   \<and> (\<forall>v. (driftBarColor \<bar>v\<bar> = ''#d9363e'') = (\<bar>v\<bar> > 5))
   \<and> is_alerted (drift_item 5 1 ''Equity'' 50 55)
   \<and> drift_pct (drift_item 5 1 ''Equity'' 50 55) = 5
   \<and> driftTextColor (drift_pct (drift_item 5 1 ''Equity'' 50 55)) = ''#d46b08''
   \<and> buildDriftOption_colors [drift_item 5 1 ''Equity'' 50 55] = [''#1f4f94'']
   \<and> driftBarColor 5 = driftBarColor 0"
  by (simp add: drift_item_def driftTextColor_def buildDriftOption_colors_def driftBarColor_def)

section \<open>Properties: the dates of the ledger\<close>

subsection \<open>Years and days\<close>

lemma div_bounds:
  fixes x k :: int
  assumes "0 < k"
  shows "k * (x div k) \<le> x" and "x < k * (x div k) + k"
proof -
  have e: "k * (x div k) + x mod k = x" by (rule mult_div_mod_eq)
  have "0 \<le> x mod k" "x mod k < k" using assms by simp_all
  with e show "k * (x div k) \<le> x" and "x < k * (x div k) + k" by linarith+
qed

lemma div_succ:
  fixes x k :: int
  assumes "1 < k"
  shows "(x + 1) div k = x div k + (if (x + 1) mod k = 0 then 1 else 0)"
proof -
  have e: "x = k * (x div k) + x mod k" by simp
  have r: "0 \<le> x mod k" "x mod k < k" using assms by simp_all
  show ?thesis
  proof (cases "x mod k = k - 1")
    case True
    have "k * (x div k + 1) = k * (x div k) + k" by (simp add: algebra_simps)
    with True e have "x + 1 = k * (x div k + 1) + 0" by linarith
    from int_div_pos_eq [OF this] int_mod_pos_eq [OF this] assms
    show ?thesis by simp
  next
    case False
    with r have r': "x mod k + 1 < k" by linarith
    have "x + 1 = k * (x div k) + (x mod k + 1)" using e by linarith
    from int_div_pos_eq [OF this _ r'] int_mod_pos_eq [OF this _ r'] r
    show ?thesis by simp
  qed
qed

lemma mod_shift:
  fixes y :: int
  shows "(y - 1968 + 0) mod 4 = y mod 4" "(y - 1900 + 0) mod 100 = y mod 100"
    "(y - 1600 + 0) mod 400 = y mod 400"
proof -
  have "(y + 4 * (- 492)) mod 4 = y mod 4" by (rule mod_mult_self2)
  then show "(y - 1968 + 0) mod 4 = y mod 4" by simp
  have "(y + 100 * (- 19)) mod 100 = y mod 100" by (rule mod_mult_self2)
  then show "(y - 1900 + 0) mod 100 = y mod 100" by simp
  have "(y + 400 * (- 4)) mod 400 = y mod 400" by (rule mod_mult_self2)
  then show "(y - 1600 + 0) mod 400 = y mod 400" by simp
qed

lemma century_facts:
  fixes y :: int
  shows "y mod 100 = 0 \<Longrightarrow> y mod 4 = 0" and "y mod 400 = 0 \<Longrightarrow> y mod 100 = 0"
proof -
  assume "y mod 100 = 0"
  then have "100 dvd y" by (simp add: mod_eq_0_iff_dvd)
  moreover have "(4::int) dvd 100" by simp
  ultimately have "4 dvd y" by (rule dvd_trans [rotated])
  then show "y mod 4 = 0" by (simp add: mod_eq_0_iff_dvd)
next
  assume "y mod 400 = 0"
  then have "400 dvd y" by (simp add: mod_eq_0_iff_dvd)
  moreover have "(100::int) dvd 400" by simp
  ultimately have "100 dvd y" by (rule dvd_trans [rotated])
  then show "y mod 100 = 0" by (simp add: mod_eq_0_iff_dvd)
qed

lemma DayFromYear_step: "DayFromYear (y + 1) = DayFromYear y + DaysInYear y"
proof -
  have a: "(y + 1 - 1969) div 4 = (y - 1969) div 4 + (if y mod 4 = 0 then 1 else 0)"
    using div_succ [of 4 "y - 1969"] mod_shift(1) [of y] by (simp add: algebra_simps)
  have b: "(y + 1 - 1901) div 100 = (y - 1901) div 100 + (if y mod 100 = 0 then 1 else 0)"
    using div_succ [of 100 "y - 1901"] mod_shift(2) [of y] by (simp add: algebra_simps)
  have c: "(y + 1 - 1601) div 400 = (y - 1601) div 400 + (if y mod 400 = 0 then 1 else 0)"
    using div_succ [of 400 "y - 1601"] mod_shift(3) [of y] by (simp add: algebra_simps)
  show ?thesis
    unfolding DayFromYear_def DaysInYear_def a b c
    using century_facts [of y] by auto
qed

lemma DaysInYear_range: "365 \<le> DaysInYear y" "DaysInYear y \<le> 366"
  by (simp_all add: DaysInYear_def)

lemma DayFromYear_add: "DayFromYear y + 365 * int n \<le> DayFromYear (y + int n)"
proof (induction n)
  case 0
  then show ?case by simp
next
  case (Suc n)
  have "DayFromYear (y + int (Suc n)) = DayFromYear (y + int n) + DaysInYear (y + int n)"
    using DayFromYear_step [of "y + int n"] by (simp add: ac_simps)
  with Suc DaysInYear_range(1) [of "y + int n"] show ?case by simp
qed

lemma DayFromYear_mono: "y \<le> z \<Longrightarrow> DayFromYear y \<le> DayFromYear z"
  using DayFromYear_add [of y "nat (z - y)"] by simp

lemma dfy_bounds_aux:
  fixes a b c y :: int
  assumes "4 * a \<le> y - 1969" "y - 1969 < 4 * a + 4"
      and "100 * b \<le> y - 1901" "y - 1901 < 100 * b + 100"
      and "400 * c \<le> y - 1601" "y - 1601 < 400 * c + 400"
  shows "146097 * (y - 1970) - 600 \<le> 400 * (365 * (y - 1970) + a - b + c)"
    and "400 * (365 * (y - 1970) + a - b + c) \<le> 146097 * (y - 1970) + 600"
  using assms by (simp_all add: algebra_simps)

lemma DayFromYear_bounds:
  "146097 * (y - 1970) - 600 \<le> 400 * DayFromYear y"
  "400 * DayFromYear y \<le> 146097 * (y - 1970) + 600"
  unfolding DayFromYear_def
  using dfy_bounds_aux [OF div_bounds [of 4 "y - 1969"] div_bounds [of 100 "y - 1901"]
      div_bounds [of 400 "y - 1601"]]
  by simp_all

lemma YearFromDay_bounds:
  "DayFromYear (YearFromDay d) \<le> d" "d < DayFromYear (YearFromDay d + 1)"
proof -
  define q where "q = (400 * d) div 146097"
  have q: "146097 * q \<le> 400 * d" "400 * d < 146097 * q + 146097"
    unfolding q_def using div_bounds [of 146097 "400 * d"] by simp_all
  have "400 * DayFromYear (1970 + q - 1) \<le> 146097 * q - 145497"
    using DayFromYear_bounds(2) [of "1970 + q - 1"] by (simp add: algebra_simps)
  with q have lo: "DayFromYear (1970 + q - 1) \<le> d" by linarith
  have "146097 * q + 291594 \<le> 400 * DayFromYear (1970 + q + 2)"
    using DayFromYear_bounds(1) [of "1970 + q + 2"] by (simp add: algebra_simps)
  with q have hi: "d < DayFromYear (1970 + q + 2)" by linarith
  have y: "YearFromDay d =
      (if DayFromYear (1970 + q + 1) \<le> d then 1970 + q + 1
       else if DayFromYear (1970 + q) \<le> d then 1970 + q else 1970 + q - 1)"
    by (simp add: YearFromDay_def Let_def q_def)
  show "DayFromYear (YearFromDay d) \<le> d"
    using lo by (simp add: y)
  show "d < DayFromYear (YearFromDay d + 1)"
    using hi by (simp add: y algebra_simps)
qed

lemma YearFromDay_unique:
  assumes "DayFromYear y \<le> d" and "d < DayFromYear (y + 1)"
  shows "YearFromDay d = y"
proof (rule ccontr)
  assume ne: "YearFromDay d \<noteq> y"
  show False
  proof (cases "YearFromDay d < y")
    case True
    then have "DayFromYear (YearFromDay d + 1) \<le> DayFromYear y"
      by (intro DayFromYear_mono) simp
    with YearFromDay_bounds(2) [of d] assms(1) show False by linarith
  next
    case False
    with ne have "DayFromYear (y + 1) \<le> DayFromYear (YearFromDay d)"
      by (intro DayFromYear_mono) simp
    with YearFromDay_bounds(1) [of d] assms(2) show False by linarith
  qed
qed

subsection \<open>Months and days of the month\<close>

lemma month_cases:
  fixes M :: int
  assumes "1 \<le> M" "M \<le> 12"
  shows "M = 1 \<or> M = 2 \<or> M = 3 \<or> M = 4 \<or> M = 5 \<or> M = 6 \<or> M = 7 \<or> M = 8
         \<or> M = 9 \<or> M = 10 \<or> M = 11 \<or> M = 12"
  using assms by arith

lemma Day_of_sum:
  assumes "0 \<le> r" "r < msPerDay"
  shows "Day (d * msPerDay + r) = d"
proof -
  have "d * msPerDay + r = msPerDay * d + r" by simp
  from int_div_pos_eq [OF this assms] show ?thesis by (simp add: Day_def)
qed

lemma MakeDay_in_year:
  assumes "1 \<le> M" "M \<le> 12"
  shows "MakeDay Y (M - 1) D = DayFromYear Y + DaysBeforeMonth Y (M - 1) + D - 1"
proof -
  have "(M - 1) div 12 = 0" "(M - 1) mod 12 = M - 1" using assms by simp_all
  then show ?thesis by (simp add: MakeDay_def Let_def)
qed

lemma offset_in_year:
  assumes "1 \<le> M" "M \<le> 12" "1 \<le> D" "D \<le> DaysInMonth Y M"
  shows "0 \<le> DaysBeforeMonth Y (M - 1) + D - 1"
    and "DaysBeforeMonth Y (M - 1) + D - 1 < DaysInYear Y"
  using month_cases [OF assms(1,2)] assms(3,4) DaysInYear_range [of Y]
  by (auto simp: DaysBeforeMonth_def DaysInMonth_def Let_def)

lemma civil_of_MakeDay:
  assumes M: "1 \<le> M" "M \<le> 12" and D: "1 \<le> D" "D \<le> DaysInMonth Y M"
      and r: "0 \<le> r" "r < msPerDay"
  defines "t \<equiv> MakeDay Y (M - 1) D * msPerDay + r"
  shows "Day t = MakeDay Y (M - 1) D" and "YearFromTime t = Y"
    and "MonthFromTime t = M - 1" and "DateFromTime t = D"
proof -
  show day: "Day t = MakeDay Y (M - 1) D"
    unfolding t_def by (rule Day_of_sum [OF r])
  note md = MakeDay_in_year [OF M, of Y D]
  note off = offset_in_year [OF M D]
  have "DayFromYear Y \<le> MakeDay Y (M - 1) D" using md off(1) by linarith
  moreover have "MakeDay Y (M - 1) D < DayFromYear (Y + 1)"
    using md off(2) DayFromYear_step [of Y] by linarith
  ultimately have "YearFromDay (MakeDay Y (M - 1) D) = Y" by (rule YearFromDay_unique)
  then show year: "YearFromTime t = Y" by (simp add: YearFromTime_def day)
  have dwy: "DayWithinYear t = DaysBeforeMonth Y (M - 1) + D - 1"
    by (simp add: DayWithinYear_def day year md)
  have leap: "InLeapYear t = (if DaysInYear Y = 366 then 1 else 0)"
    by (simp add: InLeapYear_def year)
  have leapv: "DaysInYear Y = 365 \<or> DaysInYear Y = 366" by (simp add: DaysInYear_def)
  show month: "MonthFromTime t = M - 1"
    unfolding MonthFromTime_def Let_def dwy leap
    using month_cases [OF M] D leapv
    by (elim disjE) (simp_all add: DaysBeforeMonth_def DaysInMonth_def)
  show "DateFromTime t = D"
    unfolding DateFromTime_def Let_def dwy leap month
    using month_cases [OF M] D leapv
    by (elim disjE) (simp_all add: DaysBeforeMonth_def DaysInMonth_def)
qed

lemma month_interval:
  fixes w l :: int
  assumes "0 \<le> w" "w < 365 + l"
  shows "w < 31 \<or> (31 \<le> w \<and> w < 59 + l) \<or> (59 + l \<le> w \<and> w < 90 + l)
         \<or> (90 + l \<le> w \<and> w < 120 + l) \<or> (120 + l \<le> w \<and> w < 151 + l)
         \<or> (151 + l \<le> w \<and> w < 181 + l) \<or> (181 + l \<le> w \<and> w < 212 + l)
         \<or> (212 + l \<le> w \<and> w < 243 + l) \<or> (243 + l \<le> w \<and> w < 273 + l)
         \<or> (273 + l \<le> w \<and> w < 304 + l) \<or> (304 + l \<le> w \<and> w < 334 + l)
         \<or> (334 + l \<le> w \<and> w < 365 + l)"
  using assms by linarith

lemma MakeDay_of_civil:
  "MakeDay (YearFromTime t) (MonthFromTime t) (DateFromTime t) = Day t"
  "0 \<le> MonthFromTime t" "MonthFromTime t \<le> 11"
  "1 \<le> DateFromTime t" "DateFromTime t \<le> DaysInMonth (YearFromTime t) (MonthFromTime t + 1)"
proof -
  define Y where "Y = YearFromTime t"
  define w where "w = DayWithinYear t"
  define l :: int where "l = (if DaysInYear Y = 366 then 1 else 0)"
  have b: "DayFromYear Y \<le> Day t" "Day t < DayFromYear Y + DaysInYear Y"
    using YearFromDay_bounds [of "Day t"] DayFromYear_step [of Y]
    by (simp_all add: Y_def YearFromTime_def)
  have diy: "DaysInYear Y = 365 + l" by (simp add: l_def DaysInYear_def)
  have l: "l = 0 \<or> l = 1" by (simp add: l_def)
  have w: "0 \<le> w" "w < 365 + l" "Day t = DayFromYear Y + w"
    using b diy by (simp_all add: w_def DayWithinYear_def Y_def)
  have leap: "InLeapYear t = l"
    by (simp add: InLeapYear_def Y_def l_def)
  have l366: "(DaysInYear Y = 366) = (l = 1)" using diy l by auto
  show m0: "0 \<le> MonthFromTime t" and m11: "MonthFromTime t \<le> 11"
    by (simp_all add: MonthFromTime_def Let_def)
  have "(MonthFromTime t) div 12 = 0" "(MonthFromTime t) mod 12 = MonthFromTime t"
    using m0 m11 by simp_all
  then have md: "MakeDay Y (MonthFromTime t) (DateFromTime t)
      = DayFromYear Y + DaysBeforeMonth Y (MonthFromTime t) + DateFromTime t - 1"
    by (simp add: MakeDay_def Let_def)
  have lb: "0 \<le> l" "l \<le> 1" using l by auto
  have main: "DaysBeforeMonth Y (MonthFromTime t) + DateFromTime t - 1 = w
      \<and> 1 \<le> DateFromTime t
      \<and> DateFromTime t \<le> DaysInMonth Y (MonthFromTime t + 1)"
    using month_interval [OF w(1,2)]
  proof (elim disjE conjE)
    assume a: "w < 31"
    then have m: "MonthFromTime t = 0"
      using lb by (simp add: MonthFromTime_def Let_def leap w_def [symmetric])
    show ?thesis
      using a w(1) l
      by (auto simp: m DateFromTime_def DaysBeforeMonth_def DaysInMonth_def Let_def leap
          w_def [symmetric] l366)
  next
    assume a: "31 \<le> w" "w < 59 + l"
    then have m: "MonthFromTime t = 1"
      using lb by (simp add: MonthFromTime_def Let_def leap w_def [symmetric])
    show ?thesis
      using a w(1) l
      by (auto simp: m DateFromTime_def DaysBeforeMonth_def DaysInMonth_def Let_def leap
          w_def [symmetric] l366)
  next
    assume a: "59 + l \<le> w" "w < 90 + l"
    then have m: "MonthFromTime t = 2"
      using lb by (simp add: MonthFromTime_def Let_def leap w_def [symmetric])
    show ?thesis
      using a w(1) l
      by (auto simp: m DateFromTime_def DaysBeforeMonth_def DaysInMonth_def Let_def leap
          w_def [symmetric] l366)
  next
    assume a: "90 + l \<le> w" "w < 120 + l"
    then have m: "MonthFromTime t = 3"
      using lb by (simp add: MonthFromTime_def Let_def leap w_def [symmetric])
    show ?thesis
      using a w(1) l
      by (auto simp: m DateFromTime_def DaysBeforeMonth_def DaysInMonth_def Let_def leap
          w_def [symmetric] l366)
  next
    assume a: "120 + l \<le> w" "w < 151 + l"
    then have m: "MonthFromTime t = 4"
      using lb by (simp add: MonthFromTime_def Let_def leap w_def [symmetric])
    show ?thesis
      using a w(1) l
      by (auto simp: m DateFromTime_def DaysBeforeMonth_def DaysInMonth_def Let_def leap
          w_def [symmetric] l366)
  next
    assume a: "151 + l \<le> w" "w < 181 + l"
    then have m: "MonthFromTime t = 5"
      using lb by (simp add: MonthFromTime_def Let_def leap w_def [symmetric])
    show ?thesis
      using a w(1) l
      by (auto simp: m DateFromTime_def DaysBeforeMonth_def DaysInMonth_def Let_def leap
          w_def [symmetric] l366)
  next
    assume a: "181 + l \<le> w" "w < 212 + l"
    then have m: "MonthFromTime t = 6"
      using lb by (simp add: MonthFromTime_def Let_def leap w_def [symmetric])
    show ?thesis
      using a w(1) l
      by (auto simp: m DateFromTime_def DaysBeforeMonth_def DaysInMonth_def Let_def leap
          w_def [symmetric] l366)
  next
    assume a: "212 + l \<le> w" "w < 243 + l"
    then have m: "MonthFromTime t = 7"
      using lb by (simp add: MonthFromTime_def Let_def leap w_def [symmetric])
    show ?thesis
      using a w(1) l
      by (auto simp: m DateFromTime_def DaysBeforeMonth_def DaysInMonth_def Let_def leap
          w_def [symmetric] l366)
  next
    assume a: "243 + l \<le> w" "w < 273 + l"
    then have m: "MonthFromTime t = 8"
      using lb by (simp add: MonthFromTime_def Let_def leap w_def [symmetric])
    show ?thesis
      using a w(1) l
      by (auto simp: m DateFromTime_def DaysBeforeMonth_def DaysInMonth_def Let_def leap
          w_def [symmetric] l366)
  next
    assume a: "273 + l \<le> w" "w < 304 + l"
    then have m: "MonthFromTime t = 9"
      using lb by (simp add: MonthFromTime_def Let_def leap w_def [symmetric])
    show ?thesis
      using a w(1) l
      by (auto simp: m DateFromTime_def DaysBeforeMonth_def DaysInMonth_def Let_def leap
          w_def [symmetric] l366)
  next
    assume a: "304 + l \<le> w" "w < 334 + l"
    then have m: "MonthFromTime t = 10"
      using lb by (simp add: MonthFromTime_def Let_def leap w_def [symmetric])
    show ?thesis
      using a w(1) l
      by (auto simp: m DateFromTime_def DaysBeforeMonth_def DaysInMonth_def Let_def leap
          w_def [symmetric] l366)
  next
    assume a: "334 + l \<le> w" "w < 365 + l"
    then have m: "MonthFromTime t = 11"
      using lb by (simp add: MonthFromTime_def Let_def leap w_def [symmetric])
    show ?thesis
      using a w(1) l
      by (auto simp: m DateFromTime_def DaysBeforeMonth_def DaysInMonth_def Let_def leap
          w_def [symmetric] l366)
  qed
  show "MakeDay (YearFromTime t) (MonthFromTime t) (DateFromTime t) = Day t"
    unfolding Y_def [symmetric] md w(3) using main by linarith
  show "1 \<le> DateFromTime t" using main by simp
  show "DateFromTime t \<le> DaysInMonth (YearFromTime t) (MonthFromTime t + 1)"
    unfolding Y_def [symmetric] using main by simp
qed

subsection \<open>The time of the day\<close>

lemma time_of_sum:
  fixes d h mi s :: int
  assumes h: "0 \<le> h" "h \<le> 23" and mi: "0 \<le> mi" "mi \<le> 59" and s: "0 \<le> s" "s \<le> 59"
  defines "t \<equiv> d * msPerDay + MakeTime h mi s 0"
  shows "Day t = d" and "HourFromTime t = h" and "MinFromTime t = mi" and "SecFromTime t = s"
proof -
  have t: "t = d * 86400000 + h * 3600000 + mi * 60000 + s * 1000"
    by (simp add: t_def MakeTime_def msPerDay_def msPerHour_def msPerMinute_def msPerSecond_def)
  have "0 \<le> MakeTime h mi s 0" "MakeTime h mi s 0 < msPerDay"
    using h mi s
    by (simp_all add: MakeTime_def msPerDay_def msPerHour_def msPerMinute_def msPerSecond_def)
  then show "Day t = d" unfolding t_def by (rule Day_of_sum)
  have eh: "t = 3600000 * (24 * d + h) + (mi * 60000 + s * 1000)" using t by simp
  have "t div 3600000 = 24 * d + h"
    using int_div_pos_eq [OF eh] mi s by simp
  moreover have "(24 * d + h) mod 24 = h"
    using int_mod_pos_eq [of "24 * d + h" 24 d h] h by simp
  ultimately show "HourFromTime t = h" by (simp add: HourFromTime_def msPerHour_def)
  have em: "t = 60000 * (60 * (24 * d + h) + mi) + s * 1000" using t by simp
  have "t div 60000 = 60 * (24 * d + h) + mi"
    using int_div_pos_eq [OF em] s by simp
  moreover have "(60 * (24 * d + h) + mi) mod 60 = mi"
    using int_mod_pos_eq [of "60 * (24 * d + h) + mi" 60 "24 * d + h" mi] mi by simp
  ultimately show "MinFromTime t = mi" by (simp add: MinFromTime_def msPerMinute_def)
  have es: "t = 1000 * (60 * (60 * (24 * d + h) + mi) + s) + 0" using t by simp
  have "t div 1000 = 60 * (60 * (24 * d + h) + mi) + s"
    using int_div_pos_eq [OF es] by simp
  moreover have "(60 * (60 * (24 * d + h) + mi) + s) mod 60 = s"
    using int_mod_pos_eq [of "60 * (60 * (24 * d + h) + mi) + s" 60 "60 * (24 * d + h) + mi" s] s
    by simp
  ultimately show "SecFromTime t = s" by (simp add: SecFromTime_def msPerSecond_def)
qed

lemma time_fields_range:
  "0 \<le> HourFromTime t" "HourFromTime t \<le> 23" "0 \<le> MinFromTime t" "MinFromTime t \<le> 59"
  "0 \<le> SecFromTime t" "SecFromTime t \<le> 59"
proof -
  have "HourFromTime t < 24" "MinFromTime t < 60" "SecFromTime t < 60"
    by (simp_all add: HourFromTime_def MinFromTime_def SecFromTime_def)
  then show "HourFromTime t \<le> 23" "MinFromTime t \<le> 59" "SecFromTime t \<le> 59" by simp_all
qed (simp_all add: HourFromTime_def MinFromTime_def SecFromTime_def)

lemma time_decompose:
  "t = Day t * msPerDay + MakeTime (HourFromTime t) (MinFromTime t) (SecFromTime t) 0 + t mod 1000"
proof -
  define a where "a = t div 1000"
  define b where "b = a div 60"
  define c where "c = b div 60"
  define e where "e = c div 24"
  have t: "t = 1000 * a + t mod 1000" by (simp add: a_def)
  have a: "a = 60 * b + a mod 60" by (simp add: b_def)
  have b: "b = 60 * c + b mod 60" by (simp add: c_def)
  have c: "c = 24 * e + c mod 24" by (simp add: e_def)
  have b': "t div 60000 = b"
    using zdiv_zmult2_eq [of 60 t 1000] by (simp add: a_def b_def)
  have c': "t div 3600000 = c"
    using zdiv_zmult2_eq [of 60 t 60000] b' by (simp add: c_def)
  have e': "t div 86400000 = e"
    using zdiv_zmult2_eq [of 24 t 3600000] c' by (simp add: e_def)
  have "t = 1000 * (60 * (60 * (24 * e + c mod 24) + b mod 60) + a mod 60) + t mod 1000"
    using t a b c by simp
  then show ?thesis
    by (simp add: Day_def HourFromTime_def MinFromTime_def SecFromTime_def MakeTime_def
        msPerDay_def msPerHour_def msPerMinute_def msPerSecond_def a_def [symmetric] b' c' e')
qed

subsection \<open>Strings of digits\<close>

lemma digit_cases:
  assumes "d < (10::nat)"
  shows "d = 0 \<or> d = 1 \<or> d = 2 \<or> d = 3 \<or> d = 4 \<or> d = 5 \<or> d = 6 \<or> d = 7 \<or> d = 8 \<or> d = 9"
  using assms by arith

lemma digit_char_props:
  assumes "d < 10"
  shows "is_digit (digit_char d)" and "digit_val (digit_char d) = d"
  using digit_cases [OF assms]
  by (auto simp: is_digit_def digit_char_def digit_val_def)

lemma is_digit_props:
  assumes "is_digit c"
  shows "digit_val c < 10" and "digit_char (digit_val c) = c"
  using assms
  by (auto simp: is_digit_def digit_char_def digit_val_def)

lemma digits_of_nat_1: "n < 10 \<Longrightarrow> digits_of_nat n = [digit_char n]"
  by (subst digits_of_nat.simps) simp

lemma digits_of_nat_step:
  "b < 10 \<Longrightarrow> 0 < a \<Longrightarrow> digits_of_nat (10 * a + b) = digits_of_nat a @ [digit_char b]"
  by (subst digits_of_nat.simps) simp

lemma String_of_nat: "String_of_int (int n) = digits_of_nat n"
  by (simp add: String_of_int_def)

lemma pad2_digits:
  assumes "a < 10" "b < 10"
  shows "pad2 (int (10 * a + b)) = [digit_char a, digit_char b]"
proof (cases "a = 0")
  case True
  then have "digits_of_nat (10 * a + b) = [digit_char b]"
    using assms by (simp add: digits_of_nat_1)
  then show ?thesis
    unfolding pad2_def String_of_nat using True
    by (simp add: padStart_def digit_char_def)
next
  case False
  then have "digits_of_nat (10 * a + b) = [digit_char a, digit_char b]"
    using assms by (simp add: digits_of_nat_step digits_of_nat_1)
  then show ?thesis
    unfolding pad2_def String_of_nat
    by (simp add: padStart_def)
qed

lemma year_digits:
  assumes "0 < a" "a < 10" "b < 10" "c < 10" "d < 10"
  shows "String_of_int (int (1000 * a + 100 * b + 10 * c + d))
         = [digit_char a, digit_char b, digit_char c, digit_char d]"
proof -
  have e: "1000 * a + 100 * b + 10 * c + d = 10 * (10 * (10 * a + b) + c) + d" by simp
  have p1: "0 < 10 * a + b" and p2: "0 < 10 * (10 * a + b) + c" using assms(1) by simp_all
  have "digits_of_nat (10 * (10 * (10 * a + b) + c) + d)
      = digits_of_nat (10 * (10 * a + b) + c) @ [digit_char d]"
    by (rule digits_of_nat_step [OF assms(5) p2])
  also have "digits_of_nat (10 * (10 * a + b) + c) = digits_of_nat (10 * a + b) @ [digit_char c]"
    by (rule digits_of_nat_step [OF assms(4) p1])
  also have "digits_of_nat (10 * a + b) = digits_of_nat a @ [digit_char b]"
    by (rule digits_of_nat_step [OF assms(3) assms(1)])
  also have "digits_of_nat a = [digit_char a]"
    by (rule digits_of_nat_1 [OF assms(2)])
  finally have "digits_of_nat (10 * (10 * (10 * a + b) + c) + d)
      = [digit_char a, digit_char b, digit_char c, digit_char d]" by simp
  then show ?thesis unfolding String_of_nat e .
qed

lemma Number_2:
  assumes "a < 10" "b < 10"
  shows "Number_of_digits [digit_char a, digit_char b] = int (10 * a + b)"
  using assms by (simp add: Number_of_digits_def digit_char_props)

lemma Number_4:
  assumes "a < 10" "b < 10" "c < 10" "d < 10"
  shows "Number_of_digits [digit_char a, digit_char b, digit_char c, digit_char d]
         = int (1000 * a + 100 * b + 10 * c + d)"
  using assms by (simp add: Number_of_digits_def digit_char_props)

lemma split_2:
  fixes v :: int
  assumes "0 \<le> v" "v \<le> 99"
  shows "\<exists>a b. a < 10 \<and> b < 10 \<and> v = int (10 * a + b)"
proof -
  have "nat v div 10 < 10" "nat v mod 10 < 10" using assms by auto
  moreover have "v = int (10 * (nat v div 10) + nat v mod 10)" using assms by simp
  ultimately show ?thesis by blast
qed

lemma split_4:
  fixes v :: int
  assumes "1000 \<le> v" "v \<le> 9999"
  shows "\<exists>a b c d. 0 < a \<and> a < 10 \<and> b < 10 \<and> c < 10 \<and> d < 10
           \<and> v = int (1000 * a + 100 * b + 10 * c + d)"
proof -
  define n where "n = nat v"
  have n: "1000 \<le> n" "n \<le> 9999" "v = int n" using assms by (simp_all add: n_def)
  define q1 where "q1 = n div 10"
  define d where "d = n mod 10"
  define q2 where "q2 = q1 div 10"
  define c where "c = q1 mod 10"
  define a where "a = q2 div 10"
  define b where "b = q2 mod 10"
  have e1: "n = 10 * q1 + d" and e2: "q1 = 10 * q2 + c" and e3: "q2 = 10 * a + b"
    by (simp_all add: q1_def d_def q2_def c_def a_def b_def)
  have lt: "b < 10" "c < 10" "d < 10" by (simp_all add: b_def c_def d_def)
  have "0 < a" "a < 10" using n(1,2) e1 e2 e3 lt by linarith+
  moreover have "n = 1000 * a + 100 * b + 10 * c + d" using e1 e2 e3 by linarith
  ultimately show ?thesis using n(3) lt by blast
qed

subsection \<open>Parsing and printing\<close>

lemma upt19: "[0..<19] = [0,1,2,3,4,5,6,7,8,9,10,11,12,13,14,15,16,17,18]"
  by (simp add: upt_rec)

lemma list19:
  assumes "length s = 19"
  shows "s = [s ! 0, s ! 1, s ! 2, s ! 3, s ! 4, s ! 5, s ! 6, s ! 7, s ! 8, s ! 9, s ! 10,
              s ! 11, s ! 12, s ! 13, s ! 14, s ! 15, s ! 16, s ! 17, s ! 18]"
proof -
  have "s = map ((!) s) [0..<19]" using map_nth [of s] assms by simp
  then show ?thesis unfolding upt19 by simp
qed

lemma parse_digits:
  assumes "y1 < 10" "y2 < 10" "y3 < 10" "y4 < 10" "m1 < 10" "m2 < 10" "d1 < 10" "d2 < 10"
      and "h1 < 10" "h2 < 10" "n1 < 10" "n2 < 10" "s1 < 10" "s2 < 10"
  shows "parseDateTimeLocal
           [digit_char y1, digit_char y2, digit_char y3, digit_char y4, CHR ''-'',
            digit_char m1, digit_char m2, CHR ''-'', digit_char d1, digit_char d2, CHR ''T'',
            digit_char h1, digit_char h2, CHR '':'', digit_char n1, digit_char n2, CHR '':'',
            digit_char s1, digit_char s2]
         = Some \<lparr>f_year = int (1000 * y1 + 100 * y2 + 10 * y3 + y4),
                 f_month = int (10 * m1 + m2), f_day = int (10 * d1 + d2),
                 f_hour = int (10 * h1 + h2), f_minute = int (10 * n1 + n2),
                 f_second = int (10 * s1 + s2)\<rparr>"
proof -
  let ?s = "[digit_char y1, digit_char y2, digit_char y3, digit_char y4, CHR ''-'',
            digit_char m1, digit_char m2, CHR ''-'', digit_char d1, digit_char d2, CHR ''T'',
            digit_char h1, digit_char h2, CHR '':'', digit_char n1, digit_char n2, CHR '':'',
            digit_char s1, digit_char s2]"
  have n: "normalizeDateTimeLocal ?s = ?s" by (simp add: normalizeDateTimeLocal_def)
  have sub: "substring ?s 0 4 = [digit_char y1, digit_char y2, digit_char y3, digit_char y4]"
     "substring ?s 5 7 = [digit_char m1, digit_char m2]"
     "substring ?s 8 10 = [digit_char d1, digit_char d2]"
     "substring ?s 11 13 = [digit_char h1, digit_char h2]"
     "substring ?s 14 16 = [digit_char n1, digit_char n2]"
     "substring ?s 17 19 = [digit_char s1, digit_char s2]"
    by (simp_all add: substring_def)
  have re: "date_time_regex ?s"
    unfolding date_time_regex_def sub using assms by (simp add: digit_char_props)
  have len: "length ?s = 19" by simp
  show ?thesis
    unfolding parseDateTimeLocal_def n Let_def sub len
    using re assms by (simp add: Number_2 Number_4 del: of_nat_add of_nat_mult)
qed

lemma parse_19:
  assumes "length s = 19" and "parseDateTimeLocal s = Some f"
  obtains y1 y2 y3 y4 m1 m2 d1 d2 h1 h2 n1 n2 s1 s2 where
      "y1 < 10" "y2 < 10" "y3 < 10" "y4 < 10" "m1 < 10" "m2 < 10" "d1 < 10" "d2 < 10"
      "h1 < 10" "h2 < 10" "n1 < 10" "n2 < 10" "s1 < 10" "s2 < 10"
      "s = [digit_char y1, digit_char y2, digit_char y3, digit_char y4, CHR ''-'',
           digit_char m1, digit_char m2, CHR ''-'', digit_char d1, digit_char d2, CHR ''T'',
           digit_char h1, digit_char h2, CHR '':'', digit_char n1, digit_char n2, CHR '':'',
           digit_char s1, digit_char s2]"
proof -
  note s = list19 [OF assms(1)]
  have re: "date_time_regex s"
    using assms(2)
    by (simp add: parseDateTimeLocal_def normalizeDateTimeLocal_def assms(1) Let_def
        split: if_splits)
  have sub: "substring s 0 4 = [s ! 0, s ! 1, s ! 2, s ! 3]"
     "substring s 5 7 = [s ! 5, s ! 6]"
     "substring s 8 10 = [s ! 8, s ! 9]"
     "substring s 11 13 = [s ! 11, s ! 12]"
     "substring s 14 16 = [s ! 14, s ! 15]"
     "substring s 17 19 = [s ! 17, s ! 18]"
    by (subst s, simp add: substring_def)+
  from re have dg: "is_digit (s ! 0)" "is_digit (s ! 1)" "is_digit (s ! 2)" "is_digit (s ! 3)"
      "is_digit (s ! 5)" "is_digit (s ! 6)" "is_digit (s ! 8)" "is_digit (s ! 9)"
      "is_digit (s ! 11)" "is_digit (s ! 12)" "is_digit (s ! 14)" "is_digit (s ! 15)"
      "is_digit (s ! 17)" "is_digit (s ! 18)"
    and sep: "s ! 4 = CHR ''-''" "s ! 7 = CHR ''-''" "s ! 10 = CHR ''T''" "s ! 13 = CHR '':''"
      "s ! 16 = CHR '':''"
    unfolding date_time_regex_def sub by (simp_all add: assms(1))
  note p = dg [THEN is_digit_props(1)]
  note q = dg [THEN is_digit_props(2)]
  have e: "s = [digit_char (digit_val (s ! 0)), digit_char (digit_val (s ! 1)),
             digit_char (digit_val (s ! 2)), digit_char (digit_val (s ! 3)), CHR ''-'',
             digit_char (digit_val (s ! 5)), digit_char (digit_val (s ! 6)), CHR ''-'',
             digit_char (digit_val (s ! 8)), digit_char (digit_val (s ! 9)), CHR ''T'',
             digit_char (digit_val (s ! 11)), digit_char (digit_val (s ! 12)), CHR '':'',
             digit_char (digit_val (s ! 14)), digit_char (digit_val (s ! 15)), CHR '':'',
             digit_char (digit_val (s ! 17)), digit_char (digit_val (s ! 18))]"
  proof -
    have "[s ! 0, s ! 1, s ! 2, s ! 3, s ! 4, s ! 5, s ! 6, s ! 7, s ! 8, s ! 9, s ! 10,
              s ! 11, s ! 12, s ! 13, s ! 14, s ! 15, s ! 16, s ! 17, s ! 18]
        = [digit_char (digit_val (s ! 0)), digit_char (digit_val (s ! 1)),
             digit_char (digit_val (s ! 2)), digit_char (digit_val (s ! 3)), CHR ''-'',
             digit_char (digit_val (s ! 5)), digit_char (digit_val (s ! 6)), CHR ''-'',
             digit_char (digit_val (s ! 8)), digit_char (digit_val (s ! 9)), CHR ''T'',
             digit_char (digit_val (s ! 11)), digit_char (digit_val (s ! 12)), CHR '':'',
             digit_char (digit_val (s ! 14)), digit_char (digit_val (s ! 15)), CHR '':'',
             digit_char (digit_val (s ! 17)), digit_char (digit_val (s ! 18))]"
      by (simp only: q sep)
    with s show ?thesis by (rule trans)
  qed
  show ?thesis by (rule that [OF p e])
qed

lemma DayFromYear_1000: "DayFromYear 1000 = - 354285" and DayFromYear_10000: "DayFromYear 10000 = 2932897"
  by (simp_all add: DayFromYear_def)

lemma day_range:
  assumes Y: "1000 \<le> Y" "Y \<le> 9999"
      and M: "1 \<le> M" "M \<le> 12" and D: "1 \<le> D" "D \<le> DaysInMonth Y M"
  shows "- 354285 \<le> MakeDay Y (M - 1) D" and "MakeDay Y (M - 1) D < 2932897"
proof -
  note md = MakeDay_in_year [OF M, of Y D]
  note off = offset_in_year [OF M D]
  have lo: "DayFromYear 1000 \<le> DayFromYear Y" using Y(1) by (rule DayFromYear_mono)
  have hi: "DayFromYear (Y + 1) \<le> DayFromYear 10000"
    using Y(2) by (intro DayFromYear_mono) simp
  show "- 354285 \<le> MakeDay Y (M - 1) D"
    using md off(1) lo DayFromYear_1000 by linarith
  show "MakeDay Y (M - 1) D < 2932897"
    using md off(2) hi DayFromYear_step [of Y] DayFromYear_10000 by linarith
qed

lemma MakeTime_range:
  fixes h mi s :: int
  assumes "0 \<le> h" "h \<le> 23" "0 \<le> mi" "mi \<le> 59" "0 \<le> s" "s \<le> 59"
  shows "0 \<le> MakeTime h mi s 0" and "MakeTime h mi s 0 < msPerDay"
    and "MakeTime (h - 8) mi s 0 = MakeTime h mi s 0 - 8 * msPerHour"
  using assms
  by (simp_all add: MakeTime_def msPerDay_def msPerHour_def msPerMinute_def msPerSecond_def)

lemma Date_UTC_local:
  assumes Y: "1000 \<le> Y" "Y \<le> 9999"
      and M: "1 \<le> M" "M \<le> 12" and D: "1 \<le> D" "D \<le> DaysInMonth Y M"
      and h: "0 \<le> h" "h \<le> 23" and mi: "0 \<le> mi" "mi \<le> 59" and s: "0 \<le> s" "s \<le> 59"
  shows "Date_UTC Y (M - 1) D (h - 8) mi s
         = Time_Value (MakeDay Y (M - 1) D * msPerDay + MakeTime h mi s 0 - 8 * msPerHour)"
proof -
  note dr = day_range [OF Y M D]
  note tr = MakeTime_range [OF h mi s]
  have "\<bar>MakeDay Y (M - 1) D * msPerDay + MakeTime h mi s 0 - 8 * msPerHour\<bar> \<le> 8640000000000000"
    using dr tr(1,2) by (simp add: msPerDay_def msPerHour_def)
  then show ?thesis
    using Y(1) by (simp add: Date_UTC_def TimeClip_def MakeDate_def tr(3))
qed

lemma format_local:
  assumes Y: "1000 \<le> Y" "Y \<le> 9999"
      and M: "1 \<le> M" "M \<le> 12" and D: "1 \<le> D" "D \<le> DaysInMonth Y M"
      and h: "0 \<le> h" "h \<le> 23" and mi: "0 \<le> mi" "mi \<le> 59" and s: "0 \<le> s" "s \<le> 59"
  shows "formatUtcToDateTimeLocalByOffset
           (MakeDay Y (M - 1) D * msPerDay + MakeTime h mi s 0 - 8 * msPerHour)
           SHANGHAI_OFFSET_HOURS
         = String_of_int Y @ ''-'' @ pad2 M @ ''-'' @ pad2 D @ ''T'' @ pad2 h
             @ '':'' @ pad2 mi @ '':'' @ pad2 s"
proof -
  let ?sh = "MakeDay Y (M - 1) D * msPerDay + MakeTime h mi s 0"
  note dr = day_range [OF Y M D]
  note tr = MakeTime_range [OF h mi s]
  have sh: "MakeDay Y (M - 1) D * msPerDay + MakeTime h mi s 0 - 8 * msPerHour
        + SHANGHAI_OFFSET_HOURS * 3600 * 1000 = ?sh"
    by (simp add: SHANGHAI_OFFSET_HOURS_def msPerHour_def)
  have clip: "TimeClip ?sh = Time_Value ?sh"
    using dr tr(1,2) by (simp add: TimeClip_def msPerDay_def)
  note c = civil_of_MakeDay [OF M D tr(1,2)]
  note t = time_of_sum [OF h mi s, of "MakeDay Y (M - 1) D"]
  show ?thesis
    unfolding formatUtcToDateTimeLocalByOffset_def sh clip
    by (simp add: c t)
qed

lemma local_round_trip:
  assumes len: "length s = 19" and parse: "parseDateTimeLocal s = Some f"
      and Y: "1000 \<le> f_year f"
      and M: "1 \<le> f_month f" "f_month f \<le> 12"
      and D: "1 \<le> f_day f" "f_day f \<le> DaysInMonth (f_year f) (f_month f)"
      and h: "f_hour f \<le> 23" and mi: "f_minute f \<le> 59" and sec: "f_second f \<le> 59"
  defines "t \<equiv> MakeDay (f_year f) (f_month f - 1) (f_day f) * msPerDay
                + MakeTime (f_hour f) (f_minute f) (f_second f) 0 - 8 * msPerHour"
  shows "shanghaiLocalToIso now s = Inr t"
    and "isoToShanghaiLocalDateTime now' (Time_Value t) = s"
proof -
  from parse_19 [OF len parse] obtain y1 y2 y3 y4 m1 m2 d1 d2 h1 h2 n1 n2 s1 s2 where
    bs: "y1 < 10" "y2 < 10" "y3 < 10" "y4 < 10" "m1 < 10" "m2 < 10" "d1 < 10" "d2 < 10"
      "h1 < 10" "h2 < 10" "n1 < 10" "n2 < 10" "s1 < 10" "s2 < 10"
    and s: "s = [digit_char y1, digit_char y2, digit_char y3, digit_char y4, CHR ''-'',
                  digit_char m1, digit_char m2, CHR ''-'', digit_char d1, digit_char d2, CHR ''T'',
                  digit_char h1, digit_char h2, CHR '':'', digit_char n1, digit_char n2, CHR '':'',
                  digit_char s1, digit_char s2]"
    .
  have "parseDateTimeLocal s
         = Some \<lparr>f_year = int (1000 * y1 + 100 * y2 + 10 * y3 + y4),
                 f_month = int (10 * m1 + m2), f_day = int (10 * d1 + d2),
                 f_hour = int (10 * h1 + h2), f_minute = int (10 * n1 + n2),
                 f_second = int (10 * s1 + s2)\<rparr>"
    unfolding s by (rule parse_digits [OF bs])
  with parse have f: "f = \<lparr>f_year = int (1000 * y1 + 100 * y2 + 10 * y3 + y4),
                 f_month = int (10 * m1 + m2), f_day = int (10 * d1 + d2),
                 f_hour = int (10 * h1 + h2), f_minute = int (10 * n1 + n2),
                 f_second = int (10 * s1 + s2)\<rparr>"
    by simp
  have fy: "f_year f = int (1000 * y1 + 100 * y2 + 10 * y3 + y4)"
    and fm: "f_month f = int (10 * m1 + m2)" and fd: "f_day f = int (10 * d1 + d2)"
    and fh: "f_hour f = int (10 * h1 + h2)" and fn: "f_minute f = int (10 * n1 + n2)"
    and fs: "f_second f = int (10 * s1 + s2)"
    unfolding f by simp_all
  have y1: "0 < y1" using Y bs(2-4) unfolding fy by linarith
  have Y2: "f_year f \<le> 9999" using bs(1-4) unfolding fy by linarith
  have nn: "0 \<le> f_hour f" "0 \<le> f_minute f" "0 \<le> f_second f"
    unfolding fh fn fs by simp_all
  have utc: "Date_UTC (f_year f) (f_month f - 1) (f_day f) (f_hour f - 8) (f_minute f) (f_second f)
      = Time_Value t"
    unfolding t_def
    by (rule Date_UTC_local [OF Y Y2 M D nn(1) h nn(2) mi nn(3) sec])
  show "shanghaiLocalToIso now s = Inr t"
    by (simp add: shanghaiLocalToIso_def parse SHANGHAI_OFFSET_HOURS_def utc)
  have "formatUtcToDateTimeLocalByOffset t SHANGHAI_OFFSET_HOURS
      = String_of_int (f_year f) @ ''-'' @ pad2 (f_month f) @ ''-'' @ pad2 (f_day f) @ ''T''
          @ pad2 (f_hour f) @ '':'' @ pad2 (f_minute f) @ '':'' @ pad2 (f_second f)"
    unfolding t_def
    by (rule format_local [OF Y Y2 M D nn(1) h nn(2) mi nn(3) sec])
  also have "\<dots> = s"
    unfolding fy fm fd fh fn fs s
    by (simp only: year_digits [OF y1 bs(1-4)] pad2_digits bs append.simps)
  finally show "isoToShanghaiLocalDateTime now' (Time_Value t) = s"
    by (simp add: isoToShanghaiLocalDateTime_def)
qed

lemma instant_round_trip:
  assumes ms: "t mod 1000 = 0"
      and Y: "1000 \<le> YearFromTime (t + 8 * msPerHour)" "YearFromTime (t + 8 * msPerHour) \<le> 9999"
  shows "shanghaiLocalToIso now (isoToShanghaiLocalDateTime now' (Time_Value t)) = Inr t"
proof -
  define sh where "sh = t + 8 * msPerHour"
  define Yr where "Yr = YearFromTime sh"
  define Mo where "Mo = MonthFromTime sh + 1"
  define Dt where "Dt = DateFromTime sh"
  define Hr where "Hr = HourFromTime sh"
  define Mi where "Mi = MinFromTime sh"
  define Sc where "Sc = SecFromTime sh"
  note civ = MakeDay_of_civil [of sh]
  note rng = time_fields_range [of sh]
  have Yr: "1000 \<le> Yr" "Yr \<le> 9999" using Y by (simp_all add: Yr_def sh_def)
  have Mo: "1 \<le> Mo" "Mo \<le> 12" using civ(2,3) by (simp_all add: Mo_def)
  have Dt: "1 \<le> Dt" "Dt \<le> DaysInMonth Yr Mo" using civ(4,5) by (simp_all add: Dt_def Yr_def Mo_def)
  have Hr: "0 \<le> Hr" "Hr \<le> 23" using rng(1,2) by (simp_all add: Hr_def)
  have Mi: "0 \<le> Mi" "Mi \<le> 59" using rng(3,4) by (simp_all add: Mi_def)
  have Sc: "0 \<le> Sc" "Sc \<le> 59" using rng(5,6) by (simp_all add: Sc_def)
  have "sh mod 1000 = (t + 1000 * 28800) mod 1000" by (simp add: sh_def msPerHour_def)
  also have "\<dots> = t mod 1000" by (rule mod_mult_self2)
  finally have sh0: "sh mod 1000 = 0" using ms by simp
  have "sh = Day sh * msPerDay + MakeTime Hr Mi Sc 0 + sh mod 1000"
    unfolding Hr_def Mi_def Sc_def by (rule time_decompose)
  then have "sh = MakeDay Yr (Mo - 1) Dt * msPerDay + MakeTime Hr Mi Sc 0"
    using sh0 civ(1) by (simp add: Yr_def Mo_def Dt_def)
  then have t: "t = MakeDay Yr (Mo - 1) Dt * msPerDay + MakeTime Hr Mi Sc 0 - 8 * msPerHour"
    by (simp add: sh_def)
  from split_4 [OF Yr] obtain y1 y2 y3 y4 where
    y: "0 < y1" "y1 < 10" "y2 < 10" "y3 < 10" "y4 < 10"
    and Yv: "Yr = int (1000 * y1 + 100 * y2 + 10 * y3 + y4)" by blast
  from split_2 [of Mo] Mo obtain m1 m2 where m: "m1 < 10" "m2 < 10" and Mv: "Mo = int (10 * m1 + m2)"
    by auto
  from split_2 [of Dt] Dt Mo obtain d1 d2 where d: "d1 < 10" "d2 < 10" and Dv: "Dt = int (10 * d1 + d2)"
    by (auto simp: DaysInMonth_def split: if_splits)
  from split_2 [of Hr] Hr obtain h1 h2 where h: "h1 < 10" "h2 < 10" and Hv: "Hr = int (10 * h1 + h2)"
    by auto
  from split_2 [of Mi] Mi obtain n1 n2 where n: "n1 < 10" "n2 < 10" and Nv: "Mi = int (10 * n1 + n2)"
    by auto
  from split_2 [of Sc] Sc obtain s1 s2 where s: "s1 < 10" "s2 < 10" and Sv: "Sc = int (10 * s1 + s2)"
    by auto
  let ?s = "[digit_char y1, digit_char y2, digit_char y3, digit_char y4, CHR ''-'',
            digit_char m1, digit_char m2, CHR ''-'', digit_char d1, digit_char d2, CHR ''T'',
            digit_char h1, digit_char h2, CHR '':'', digit_char n1, digit_char n2, CHR '':'',
            digit_char s1, digit_char s2]"
  have "formatUtcToDateTimeLocalByOffset t SHANGHAI_OFFSET_HOURS
      = String_of_int Yr @ ''-'' @ pad2 Mo @ ''-'' @ pad2 Dt @ ''T''
          @ pad2 Hr @ '':'' @ pad2 Mi @ '':'' @ pad2 Sc"
    unfolding t by (rule format_local [OF Yr Mo Dt Hr Mi Sc])
  also have "\<dots> = ?s"
    unfolding Yv Mv Dv Hv Nv Sv
    by (simp only: year_digits [OF y] pad2_digits m d h n s append.simps)
  finally have fmt: "isoToShanghaiLocalDateTime now' (Time_Value t) = ?s"
    by (simp add: isoToShanghaiLocalDateTime_def)
  have parse: "parseDateTimeLocal ?s
      = Some \<lparr>f_year = Yr, f_month = Mo, f_day = Dt, f_hour = Hr, f_minute = Mi, f_second = Sc\<rparr>"
    unfolding Yv Mv Dv Hv Nv Sv
    by (rule parse_digits [OF y(2-5) m d h n s])
  have utc: "Date_UTC Yr (Mo - 1) Dt (Hr - 8) Mi Sc = Time_Value t"
    unfolding t by (rule Date_UTC_local [OF Yr Mo Dt Hr Mi Sc])
  show ?thesis
    unfolding fmt by (simp add: shanghaiLocalToIso_def parse SHANGHAI_OFFSET_HOURS_def utc)
qed

subsection \<open>The round trip\<close>

text \<open>
  C10. Let \<open>s\<close> be a string of the shape YYYY-MM-DDTHH:mm:ss whose fields are a date of
  the calendar and a time of the day, with a year from 1000 on. Then
  \<^const>\<open>shanghaiLocalToIso\<close> returns the instant that is 8 hours before the fields read
  as UTC, whatever the season, and \<^const>\<open>isoToShanghaiLocalDateTime\<close> of that instant is
  \<open>s\<close> again. Let \<open>t\<close> be an instant of whole seconds whose year in Shanghai is from
  1000 to 9999. Then \<^const>\<open>shanghaiLocalToIso\<close> of its local string is \<open>t\<close> again.
  Outside these bounds the two are not inverse: a year below 1000 is printed without its
  leading zeros, a day that the month does not have rolls over into the next month, and
  the milliseconds of an instant are dropped.
\<close>

theorem shanghai_round_trip:
  "(length s = 19 \<and> parseDateTimeLocal s = Some f
      \<and> 1000 \<le> f_year f \<and> 1 \<le> f_month f \<and> f_month f \<le> 12
      \<and> 1 \<le> f_day f \<and> f_day f \<le> DaysInMonth (f_year f) (f_month f)
      \<and> f_hour f \<le> 23 \<and> f_minute f \<le> 59 \<and> f_second f \<le> 59
    \<longrightarrow> (let utc = MakeDate (MakeDay (f_year f) (f_month f - 1) (f_day f))
                           (MakeTime (f_hour f) (f_minute f) (f_second f) 0)
                       - SHANGHAI_OFFSET_HOURS * msPerHour
         in shanghaiLocalToIso now s = Inr utc
            \<and> isoToShanghaiLocalDateTime now' (Time_Value utc) = s))
   \<and> (t mod 1000 = 0
        \<and> 1000 \<le> YearFromTime (t + SHANGHAI_OFFSET_HOURS * msPerHour)
        \<and> YearFromTime (t + SHANGHAI_OFFSET_HOURS * msPerHour) \<le> 9999
      \<longrightarrow> shanghaiLocalToIso now (isoToShanghaiLocalDateTime now' (Time_Value t)) = Inr t)"
proof (intro conjI impI)
  assume a: "length s = 19 \<and> parseDateTimeLocal s = Some f
      \<and> 1000 \<le> f_year f \<and> 1 \<le> f_month f \<and> f_month f \<le> 12
      \<and> 1 \<le> f_day f \<and> f_day f \<le> DaysInMonth (f_year f) (f_month f)
      \<and> f_hour f \<le> 23 \<and> f_minute f \<le> 59 \<and> f_second f \<le> 59"
  then have h: "length s = 19" "parseDateTimeLocal s = Some f" "1000 \<le> f_year f"
      "1 \<le> f_month f" "f_month f \<le> 12" "1 \<le> f_day f"
      "f_day f \<le> DaysInMonth (f_year f) (f_month f)"
      "f_hour f \<le> 23" "f_minute f \<le> 59" "f_second f \<le> 59"
    by simp_all
  have e: "MakeDate (MakeDay (f_year f) (f_month f - 1) (f_day f))
                           (MakeTime (f_hour f) (f_minute f) (f_second f) 0)
                       - SHANGHAI_OFFSET_HOURS * msPerHour
      = MakeDay (f_year f) (f_month f - 1) (f_day f) * msPerDay
                + MakeTime (f_hour f) (f_minute f) (f_second f) 0 - 8 * msPerHour"
    by (simp add: MakeDate_def SHANGHAI_OFFSET_HOURS_def)
  show "let utc = MakeDate (MakeDay (f_year f) (f_month f - 1) (f_day f))
                           (MakeTime (f_hour f) (f_minute f) (f_second f) 0)
                       - SHANGHAI_OFFSET_HOURS * msPerHour
         in shanghaiLocalToIso now s = Inr utc
            \<and> isoToShanghaiLocalDateTime now' (Time_Value utc) = s"
    unfolding Let_def e
    using local_round_trip [OF h, of now] local_round_trip(2) [OF h, of now'] by simp
next
  assume "t mod 1000 = 0
        \<and> 1000 \<le> YearFromTime (t + SHANGHAI_OFFSET_HOURS * msPerHour)
        \<and> YearFromTime (t + SHANGHAI_OFFSET_HOURS * msPerHour) \<le> 9999"
  then have "t mod 1000 = 0" "1000 \<le> YearFromTime (t + 8 * msPerHour)"
      "YearFromTime (t + 8 * msPerHour) \<le> 9999"
    by (simp_all add: SHANGHAI_OFFSET_HOURS_def)
  then show "shanghaiLocalToIso now (isoToShanghaiLocalDateTime now' (Time_Value t)) = Inr t"
    by (rule instant_round_trip)
qed

theorem shanghai_round_trip_witness:
  "shanghaiLocalToIso 0 ''2026-02-08T10:00:00'' = Inr 1770516000000
   \<and> isoToShanghaiLocalDateTime 0 (Time_Value 1770516000000) = ''2026-02-08T10:00:00''
   \<and> shanghaiLocalToIso 0 (isoToShanghaiLocalDateTime 0 (Time_Value 1770516000000))
       = Inr 1770516000000"
proof -
  let ?f = "\<lparr>f_year = 2026, f_month = 2, f_day = 8, f_hour = 10, f_minute = 0, f_second = 0\<rparr>"
  have p: "parseDateTimeLocal ''2026-02-08T10:00:00'' = Some ?f" by code_simp
  have d: "DaysInMonth 2026 2 = 28" by code_simp
  have u: "MakeDate (MakeDay 2026 1 8) (MakeTime 10 0 0 0) - SHANGHAI_OFFSET_HOURS * msPerHour
           = 1770516000000" by code_simp
  have y: "YearFromTime (1770516000000 + SHANGHAI_OFFSET_HOURS * msPerHour) = 2026" by code_simp
  from shanghai_round_trip [of "''2026-02-08T10:00:00''" ?f 0 0 1770516000000]
  show ?thesis by (simp add: p d u y Let_def)
qed

theorem shanghai_round_trip_counterexample:
  "shanghaiLocalToIso 0 ''0999-01-01T00:00:00'' = Inr (- 30641788800000)
   \<and> isoToShanghaiLocalDateTime 0 (Time_Value (- 30641788800000)) = ''999-01-01T00:00:00''
   \<and> shanghaiLocalToIso 0 ''2026-02-30T10:00:00'' = Inr 1772416800000
   \<and> isoToShanghaiLocalDateTime 0 (Time_Value 1772416800000) = ''2026-03-02T10:00:00''
   \<and> shanghaiLocalToIso 0 (isoToShanghaiLocalDateTime 0 (Time_Value 1770516000500))
       = Inr 1770516000000"
  by code_simp

end
